theory Spec2Isabelle
  imports Complex_Main "HOL-Library.Log_Nat"
begin

section \<open>Numbers and fixed-two-decimal strings\<close>

text \<open>
  The server (server.js, the second document of src/README.md) computes in JavaScript
  numbers, which are IEEE 754 doubles. A double is modelled as the rational it denotes,
  and every arithmetic operation of the source as the exact operation followed by
  \<open>dbl\<close>, the rounding to the nearest double, ties to the even significand: 53
  significant bits, and steps of \<open>2 powi (- 1074)\<close> below \<open>2 powi (- 1022)\<close>.
  Infinities and NaN are left out; no value of the simulator comes near the largest
  double, and the simulator never divides by zero (prices stay at or above 10).

  \<open>exponent x\<close> is the \<open>e\<close> with \<open>2 powi e \<le> x < 2 powi (e + 1)\<close> for a positive \<open>x\<close>
  (\<open>bitlen m\<close> is the number of binary digits of \<open>m\<close>), \<open>quantum x\<close> the distance
  between the doubles around \<open>x\<close>.
\<close>

definition exponent :: "rat \<Rightarrow> int" where
  "exponent x = (if 1 \<le> x then bitlen \<lfloor>x\<rfloor> - 1 else - bitlen (\<lceil>1 / x\<rceil> - 1))"

definition round_even :: "rat \<Rightarrow> int" where
  "round_even y =
     (if y - of_int \<lfloor>y\<rfloor> < 1 / 2 then \<lfloor>y\<rfloor>
      else if 1 / 2 < y - of_int \<lfloor>y\<rfloor> then \<lfloor>y\<rfloor> + 1
      else if even \<lfloor>y\<rfloor> then \<lfloor>y\<rfloor> else \<lfloor>y\<rfloor> + 1)"

definition quantum :: "rat \<Rightarrow> rat" where
  "quantum x = 2 powi (max (exponent x - 52) (- 1074))"

definition dbl :: "rat \<Rightarrow> rat" where
  "dbl x =
     (if x = 0 then 0
      else sgn x * (of_int (round_even (\<bar>x\<bar> / quantum \<bar>x\<bar>)) * quantum \<bar>x\<bar>))"

text \<open>
  The server keeps every quote as the string that \<^verbatim>\<open>Number.prototype.toFixed(2)\<close>
  returns and reads it back with \<^verbatim>\<open>parseFloat\<close>. A fixed-two-decimal string is
  modelled as the integer number of hundredths it denotes: \<^verbatim>\<open>"94.00"\<close> is \<open>9400\<close>,
  \<^verbatim>\<open>"-6.00"\<close> is \<open>-600\<close>.

  \<^verbatim>\<open>toFixed(2)\<close> works on the exact value of the double: it takes the sign off, picks
  the integer \<open>n\<close> with \<open>n / 100\<close> closest to the magnitude, the larger one of two
  candidates, and puts the sign back. \<^verbatim>\<open>parseFloat\<close> gives the double nearest to the
  decimal.
\<close>

definition toFixed2 :: "rat \<Rightarrow> int" where
  "toFixed2 x = (if x < 0 then - \<lfloor>(- x) * 100 + 1 / 2\<rfloor> else \<lfloor>x * 100 + 1 / 2\<rfloor>)"

definition parseFloat :: "int \<Rightarrow> rat" where
  "parseFloat h = dbl (of_int h / 100)"

section \<open>Data model\<close>

type_synonym ticker = string
type_synonym email = string
type_synonym socketId = string

record priceInfo =
  price :: int
  change :: int
  changePercent :: int

type_synonym priceTable = "ticker \<rightharpoonup> priceInfo"

definition SUPPORTED_STOCKS :: "ticker list" where
  "SUPPORTED_STOCKS = [''GOOG'', ''TSLA'', ''AMZN'', ''META'', ''NVDA'']"

section \<open>Price simulator\<close>

text \<open>
  Lines 232-238: every supported ticker starts from three draws of \<^verbatim>\<open>Math.random()\<close>
  (doubles from 0 up to, not including, 1), given here as a triple per ticker.
\<close>

definition init_priceInfo :: "rat \<times> rat \<times> rat \<Rightarrow> priceInfo" where
  "init_priceInfo r = (case r of (r1, r2, r3) \<Rightarrow>
     \<lparr>price = toFixed2 (dbl (dbl (r1 * 1000) + 100)),
      change = toFixed2 (dbl (dbl (r2 * 20) - 10)),
      changePercent = toFixed2 (dbl (dbl (r3 * 4) - 2))\<rparr>)"

definition init_stockPrices :: "(ticker \<Rightarrow> rat \<times> rat \<times> rat) \<Rightarrow> priceTable" where
  "init_stockPrices rnd = fold (\<lambda>t sp. sp(t \<mapsto> init_priceInfo (rnd t))) SUPPORTED_STOCKS Map.empty"

text \<open>
  Lines 243-252, the body of the simulator's loop for one ticker; \<open>r\<close> is the draw of
  \<^verbatim>\<open>Math.random()\<close>. Each operation of the source rounds to a double. The model
  follows the code for a non-zero current price (the code divides by it).
\<close>

definition update_price :: "rat \<Rightarrow> priceInfo \<Rightarrow> priceInfo" where
  "update_price r info =
     (let currentPrice = parseFloat (price info);
          delta = dbl (dbl (r * 10) - 5);
          newPrice = max 10 (dbl (currentPrice + delta));
          pct = dbl (dbl (delta / currentPrice) * 100)
      in \<lparr>price = toFixed2 newPrice, change = toFixed2 delta, changePercent = toFixed2 pct\<rparr>)"

text \<open>
  Lines 242-253: the loop over the supported tickers. Reading \<^verbatim>\<open>.price\<close> of a missing
  entry throws; that is the result \<open>None\<close>.
\<close>

fun update_all :: "(ticker \<Rightarrow> rat) \<Rightarrow> ticker list \<Rightarrow> priceTable \<Rightarrow> priceTable option" where
  "update_all rnd [] sp = Some sp"
| "update_all rnd (t # ts) sp =
     (case sp t of
        None \<Rightarrow> None
      | Some info \<Rightarrow> update_all rnd ts (sp(t \<mapsto> update_price (rnd t) info)))"

section \<open>Identities, registry and messages\<close>

text \<open>
  The user document (lines 172 and 199-220). A field that is missing or null is
  \<open>None\<close>; a threshold bound is \<open>Some\<close> exactly when \<^verbatim>\<open>typeof\<close> says
  \<^verbatim>\<open>'number'\<close>. The portfolio is read by none of the operations below and is left out.
  The store is the map from e-mail to document; the MongoDB branch of each handler
  repeats the in-memory branch on the fetched document.
\<close>

record threshold =
  ticker :: ticker
  above :: "rat option"
  below :: "rat option"

record alerts =
  thresholds :: "threshold list option"

record user =
  email :: email
  subscriptions :: "ticker list option"
  alerts :: "alerts option"

text \<open>
  The payloads of \<^verbatim>\<open>priceAlert\<close>: ticker, then changePercent or threshold, then price,
  each a parsed number. A \<^verbatim>\<open>stockUpdate\<close> carries the object built from the
  subscriptions, kept as its list of properties.
\<close>

datatype alert =
    SuddenChange ticker rat rat
  | ThresholdAbove ticker rat rat
  | ThresholdBelow ticker rat rat

datatype event = StockUpdate "(ticker \<times> priceInfo) list" | PriceAlert alert

type_synonym message = "socketId \<times> event"

record server =
  stockPrices :: priceTable
  inMemoryUsers :: "email \<rightharpoonup> user"
  userSockets :: "(email \<times> socketId) list"

text \<open>
  \<^verbatim>\<open>Map.prototype.set\<close> and property assignment: an existing key keeps its place and
  takes the new value, a new key goes to the end.
\<close>

fun js_set :: "('k \<times> 'v) list \<Rightarrow> 'k \<Rightarrow> 'v \<Rightarrow> ('k \<times> 'v) list" where
  "js_set [] k v = [(k, v)]"
| "js_set (kv # kvs) k v = (if fst kv = k then (k, v) # kvs else kv # js_set kvs k v)"

section \<open>Fan-out and alerts\<close>

text \<open>\<^verbatim>\<open>user.alerts?.thresholds || []\<close> (line 325).\<close>

definition thresholds_of :: "user \<Rightarrow> threshold list" where
  "thresholds_of u =
     (case alerts u of
        None \<Rightarrow> []
      | Some a \<Rightarrow> (case thresholds a of None \<Rightarrow> [] | Some ths \<Rightarrow> ths))"

text \<open>Lines 314-345: the alerts of one subscribed ticker, in the order they are emitted.\<close>

definition ticker_alerts :: "threshold list \<Rightarrow> ticker \<Rightarrow> priceInfo \<Rightarrow> alert list" where
  "ticker_alerts ths t info =
     (let pct = parseFloat (changePercent info) in
      (if \<bar>pct\<bar> > 5 then [SuddenChange t pct (parseFloat (price info))] else []) @
      (case find (\<lambda>c. ticker c = t) ths of
         None \<Rightarrow> []
       | Some cfg \<Rightarrow>
           (let p = parseFloat (price info) in
            (case above cfg of
               None \<Rightarrow> []
             | Some a \<Rightarrow> if p \<ge> a then [ThresholdAbove t a p] else []) @
            (case below cfg of
               None \<Rightarrow> []
             | Some b \<Rightarrow> if p \<le> b then [ThresholdBelow t b p] else []))))"

text \<open>
  Lines 309-347: one round of the loop over the subscriptions. The state is the object
  \<^verbatim>\<open>subscribedStocks\<close> and the messages emitted so far.
\<close>

definition sub_step ::
  "socketId \<Rightarrow> priceTable \<Rightarrow> user \<Rightarrow> ticker \<Rightarrow>
   (ticker \<times> priceInfo) list \<times> message list \<Rightarrow> (ticker \<times> priceInfo) list \<times> message list" where
  "sub_step sid sp u t acc =
     (case sp t of
        None \<Rightarrow> acc
      | Some info \<Rightarrow>
          (js_set (fst acc) t info,
           snd acc @ map (\<lambda>a. (sid, PriceAlert a)) (ticker_alerts (thresholds_of u) t info)))"

text \<open>Lines 306-349: what one registry entry makes the tick emit.\<close>

definition user_fanout :: "socketId \<Rightarrow> priceTable \<Rightarrow> user option \<Rightarrow> message list" where
  "user_fanout sid sp ou =
     (case ou of
        None \<Rightarrow> []
      | Some u \<Rightarrow>
          (case subscriptions u of
             None \<Rightarrow> []
           | Some subs \<Rightarrow>
               if length subs > 0
               then (let acc = fold (sub_step sid sp u) subs ([], [])
                     in snd acc @ [(sid, StockUpdate (fst acc))])
               else []))"

text \<open>Line 256: \<^verbatim>\<open>userSockets.forEach\<close>.\<close>

definition fanout :: "priceTable \<Rightarrow> (email \<rightharpoonup> user) \<Rightarrow> (email \<times> socketId) list \<Rightarrow> message list" where
  "fanout sp us socks = concat (map (\<lambda>(e, sid). user_fanout sid sp (us e)) socks)"

text \<open>Lines 241-352: one firing of the timer; the messages are in the order of emission.\<close>

definition tick :: "(ticker \<Rightarrow> rat) \<Rightarrow> server \<Rightarrow> (server \<times> message list) option" where
  "tick rnd s =
     (case update_all rnd SUPPORTED_STOCKS (stockPrices s) of
        None \<Rightarrow> None
      | Some sp' \<Rightarrow> Some (s\<lparr>stockPrices := sp'\<rparr>, fanout sp' (inMemoryUsers s) (userSockets s)))"

fun ticks :: "(ticker \<Rightarrow> rat) list \<Rightarrow> server \<Rightarrow> (server \<times> message list) option" where
  "ticks [] s = Some (s, [])"
| "ticks (rnd # rnds) s =
     (case tick rnd s of
        None \<Rightarrow> None
      | Some (s', out) \<Rightarrow>
          (case ticks rnds s' of
             None \<Rightarrow> None
           | Some (s'', out') \<Rightarrow> Some (s'', out @ out')))"

section \<open>Connection events\<close>

text \<open>Lines 766-771: the object sent at registration.\<close>

definition subscribedStocks :: "priceTable \<Rightarrow> ticker list \<Rightarrow> (ticker \<times> priceInfo) list" where
  "subscribedStocks sp subs =
     fold (\<lambda>t obj. case sp t of None \<Rightarrow> obj | Some info \<Rightarrow> js_set obj t info) subs []"

text \<open>Lines 752-777, \<^verbatim>\<open>socket.on('register')\<close> of the socket with id \<open>sid\<close>.\<close>

definition register :: "email \<Rightarrow> socketId \<Rightarrow> server \<Rightarrow> server \<times> message list" where
  "register e sid s =
     (s\<lparr>userSockets := js_set (userSockets s) e sid\<rparr>,
      (case inMemoryUsers s e of
         None \<Rightarrow> []
       | Some u \<Rightarrow>
           (case subscriptions u of
              None \<Rightarrow> []
            | Some subs \<Rightarrow>
                if length subs > 0
                then [(sid, StockUpdate (subscribedStocks (stockPrices s) subs))]
                else [])))"

text \<open>
  Lines 779-788, \<^verbatim>\<open>socket.on('disconnect')\<close>: the first entry with this socket id
  is deleted by its key and the loop breaks.
\<close>

definition disconnect :: "socketId \<Rightarrow> server \<Rightarrow> server" where
  "disconnect sid s =
     (case find (\<lambda>kv. snd kv = sid) (userSockets s) of
        None \<Rightarrow> s
      | Some kv \<Rightarrow> s\<lparr>userSockets := filter (\<lambda>kv'. fst kv' \<noteq> fst kv) (userSockets s)\<rparr>)"

section \<open>Subscription endpoints\<close>

datatype response = Failure nat string | Success "ticker list"

text \<open>
  Lines 671-711, in-memory branch. \<open>sess\<close> is \<^verbatim>\<open>req.session.userEmail\<close>; calling
  \<^verbatim>\<open>includes\<close> on a missing list throws and the handler answers 500.
\<close>

definition subscribe :: "email option \<Rightarrow> ticker \<Rightarrow> server \<Rightarrow> response \<times> server" where
  "subscribe sess t s =
     (case sess of
        None \<Rightarrow> (Failure 401 ''Not authenticated'', s)
      | Some e \<Rightarrow>
          if e = [] then (Failure 401 ''Not authenticated'', s)
          else if t \<notin> set SUPPORTED_STOCKS then (Failure 400 ''Unsupported stock ticker'', s)
          else (case inMemoryUsers s e of
                  None \<Rightarrow> (Failure 404 ''User not found'', s)
                | Some u \<Rightarrow>
                    (case subscriptions u of
                       None \<Rightarrow> (Failure 500 ''Subscription failed'', s)
                     | Some subs \<Rightarrow>
                         (let subs' = (if t \<in> set subs then subs else subs @ [t])
                          in (Success subs',
                              s\<lparr>inMemoryUsers :=
                                  (inMemoryUsers s)(e \<mapsto> u\<lparr>subscriptions := Some subs'\<rparr>)\<rparr>)))))"

text \<open>Lines 714-746, in-memory branch.\<close>

definition unsubscribe :: "email option \<Rightarrow> ticker \<Rightarrow> server \<Rightarrow> response \<times> server" where
  "unsubscribe sess t s =
     (case sess of
        None \<Rightarrow> (Failure 401 ''Not authenticated'', s)
      | Some e \<Rightarrow>
          if e = [] then (Failure 401 ''Not authenticated'', s)
          else (case inMemoryUsers s e of
                  None \<Rightarrow> (Failure 404 ''User not found'', s)
                | Some u \<Rightarrow>
                    (case subscriptions u of
                       None \<Rightarrow> (Failure 500 ''Unsubscription failed'', s)
                     | Some subs \<Rightarrow>
                         (let subs' = filter (\<lambda>sub. sub \<noteq> t) subs
                          in (Success subs',
                              s\<lparr>inMemoryUsers :=
                                  (inMemoryUsers s)(e \<mapsto> u\<lparr>subscriptions := Some subs'\<rparr>)\<rparr>)))))"

section \<open>The event loop\<close>

text \<open>
  The server handles one event at a time: a firing of the timer, a register or disconnect
  event of a socket, or a call of an endpoint (whose HTTP response is not a push message).
\<close>

datatype input =
    Tick "ticker \<Rightarrow> rat"
  | Register email socketId
  | Disconnect socketId
  | Subscribe "email option" ticker
  | Unsubscribe "email option" ticker

fun step :: "input \<Rightarrow> server \<Rightarrow> (server \<times> message list) option" where
  "step (Tick rnd) s = tick rnd s"
| "step (Register e sid) s = Some (register e sid s)"
| "step (Disconnect sid) s = Some (disconnect sid s, [])"
| "step (Subscribe sess t) s = Some (snd (subscribe sess t s), [])"
| "step (Unsubscribe sess t) s = Some (snd (unsubscribe sess t s), [])"

fun run :: "input list \<Rightarrow> server \<Rightarrow> (server \<times> message list) option" where
  "run [] s = Some (s, [])"
| "run (i # ins) s =
     (case step i s of
        None \<Rightarrow> None
      | Some (s', out) \<Rightarrow>
          (case run ins s' of
             None \<Rightarrow> None
           | Some (s'', out') \<Rightarrow> Some (s'', out @ out')))"

fun registers :: "socketId \<Rightarrow> input \<Rightarrow> bool" where
  "registers sid (Register e sid') = (sid' = sid)"
| "registers sid i = False"

section \<open>Properties named by the specification\<close>

text \<open>
  Every supported ticker has a quote of at least 10.00. The theorems about a tick take a
  server whose quotes are so; by C4 those are the quotes of every server that has run from
  its start-up.
\<close>

definition floor_ok :: "priceTable \<Rightarrow> bool" where
  "floor_ok sp = list_all (\<lambda>t. case sp t of None \<Rightarrow> False | Some info \<Rightarrow> 1000 \<le> price info) SUPPORTED_STOCKS"

text \<open>The alert messages of one identity's pass over its subscriptions, in emission order.\<close>

definition subscription_alerts :: "socketId \<Rightarrow> priceTable \<Rightarrow> user \<Rightarrow> ticker list \<Rightarrow> message list" where
  "subscription_alerts sid sp u subs =
     concat (map (\<lambda>t. case sp t of
                          None \<Rightarrow> []
                        | Some info \<Rightarrow>
                            map (\<lambda>a. (sid, PriceAlert a)) (ticker_alerts (thresholds_of u) t info))
                 subs)"

fun is_alert :: "event \<Rightarrow> bool" where
  "is_alert (PriceAlert a) = True"
| "is_alert (StockUpdate obj) = False"

fun is_update :: "event \<Rightarrow> bool" where
  "is_update (StockUpdate obj) = True"
| "is_update (PriceAlert a) = False"

text \<open>
  The two possible orders of one identity's messages: the update first and then only
  alerts, or only alerts and then the update.
\<close>

fun update_then_alerts :: "message list \<Rightarrow> bool" where
  "update_then_alerts [] = False"
| "update_then_alerts (m # ms) = (is_update (snd m) \<and> list_all (\<lambda>m'. is_alert (snd m')) ms)"

definition alerts_then_update :: "message list \<Rightarrow> bool" where
  "alerts_then_update ms =
     (ms \<noteq> [] \<and> is_update (snd (last ms)) \<and> list_all (\<lambda>m'. is_alert (snd m')) (butlast ms))"

fun is_sudden :: "ticker \<Rightarrow> event \<Rightarrow> bool" where
  "is_sudden t (PriceAlert (SuddenChange t' pct p)) = (t' = t)"
| "is_sudden t ev = False"

fun is_above :: "ticker \<Rightarrow> event \<Rightarrow> bool" where
  "is_above t (PriceAlert (ThresholdAbove t' a p)) = (t' = t)"
| "is_above t ev = False"

fun is_below :: "ticker \<Rightarrow> event \<Rightarrow> bool" where
  "is_below t (PriceAlert (ThresholdBelow t' b p)) = (t' = t)"
| "is_below t ev = False"

definition sudden_alert_sent :: "socketId \<Rightarrow> ticker \<Rightarrow> message list \<Rightarrow> bool" where
  "sudden_alert_sent sid t out = list_ex (\<lambda>m. fst m = sid \<and> is_sudden t (snd m)) out"

definition above_alert_sent :: "ticker \<Rightarrow> message list \<Rightarrow> bool" where
  "above_alert_sent t out = list_ex (\<lambda>m. is_above t (snd m)) out"

definition below_alert_sent :: "ticker \<Rightarrow> message list \<Rightarrow> bool" where
  "below_alert_sent t out = list_ex (\<lambda>m. is_below t (snd m)) out"

text \<open>
  The percent change of a tick as line 246 computes it, the double that
  \<^verbatim>\<open>toFixed(2)\<close> then turns into the quote's string.
\<close>

definition raw_percent :: "rat \<Rightarrow> priceInfo \<Rightarrow> rat" where
  "raw_percent r info = dbl (dbl (dbl (dbl (r * 10) - 5) / parseFloat (price info)) * 100)"

text \<open>The reported change read as the difference of two successive prices, as C3 has it.\<close>

definition change_is_price_difference :: "priceInfo \<Rightarrow> priceInfo \<Rightarrow> bool" where
  "change_is_price_difference old new = (change new = price new - price old)"

text \<open>The messages of a run of ticks; none if a tick throws.\<close>

definition ticks_out :: "(ticker \<Rightarrow> rat) list \<Rightarrow> server \<Rightarrow> message list" where
  "ticks_out rnds s = (case ticks rnds s of None \<Rightarrow> [] | Some r \<Rightarrow> snd r)"

definition ticks_prices :: "(ticker \<Rightarrow> rat) list \<Rightarrow> server \<Rightarrow> priceTable" where
  "ticks_prices rnds s = (case ticks rnds s of None \<Rightarrow> Map.empty | Some r \<Rightarrow> stockPrices (fst r))"

text \<open>Some message of the list is addressed to the socket.\<close>

definition delivers_to :: "socketId \<Rightarrow> message list \<Rightarrow> bool" where
  "delivers_to sid out = list_ex (\<lambda>m. fst m = sid) out"

definition run_out :: "input list \<Rightarrow> server \<Rightarrow> message list" where
  "run_out ins s = (case run ins s of None \<Rightarrow> [] | Some r \<Rightarrow> snd r)"

text \<open>The quotes are well-formed and no registry entry points to the socket.\<close>

definition quiet :: "socketId \<Rightarrow> server \<Rightarrow> bool" where
  "quiet sid s = (floor_ok (stockPrices s) \<and> sid \<notin> snd ` set (userSockets s))"

text \<open>An identity with nothing to report: no document, or subscriptions missing or empty.\<close>

definition no_subscriptions :: "user option \<Rightarrow> bool" where
  "no_subscriptions ou =
     (case ou of
        None \<Rightarrow> True
      | Some u \<Rightarrow> (case subscriptions u of None \<Rightarrow> True | Some subs \<Rightarrow> subs = []))"

section \<open>Example states\<close>

text \<open>
  A server right after start-up where every price draw was 0 (all quotes at 100.00), with
  one identity subscribed to GOOG and registered on socket \<open>s1\<close>.
\<close>

definition example_user :: user where
  "example_user =
     \<lparr>email = ''a@x.io'', subscriptions = Some [''GOOG''], alerts = Some \<lparr>thresholds = Some []\<rparr>\<rparr>"

definition example_server :: server where
  "example_server =
     \<lparr>stockPrices = init_stockPrices (\<lambda>t. (0, 1 / 2, 1 / 2)),
      inMemoryUsers = [''a@x.io'' \<mapsto> example_user],
      userSockets = [(''a@x.io'', ''s1'')]\<rparr>"

text \<open>
  The same server where the identity also asks for an alert when GOOG is at or above 50,
  and draws of 1/2 for every ticker (a delta of 0).
\<close>

definition alerting_user :: user where
  "alerting_user =
     \<lparr>email = ''a@x.io'', subscriptions = Some [''GOOG''],
      alerts = Some \<lparr>thresholds = Some [\<lparr>ticker = ''GOOG'', above = Some 50, below = None\<rparr>]\<rparr>\<rparr>"

definition alerting_server :: server where
  "alerting_server =
     \<lparr>stockPrices = init_stockPrices (\<lambda>t. (0, 1 / 2, 1 / 2)),
      inMemoryUsers = [''a@x.io'' \<mapsto> alerting_user],
      userSockets = [(''a@x.io'', ''s1'')]\<rparr>"

definition flat_draws :: "ticker \<Rightarrow> rat" where
  "flat_draws t = 1 / 2"

text \<open>
  Draws of \<^verbatim>\<open>Math.random()\<close>, the same for every ticker: 0 (a delta of -5), the
  double nearest to 0.1 (a delta of -4) and a double next to 0.9750095 (a delta that is
  5.0001 percent of 95.00, up to the last bits).
\<close>

definition zero_draws :: "ticker \<Rightarrow> rat" where
  "zero_draws t = 0"

definition low_draws :: "ticker \<Rightarrow> rat" where
  "low_draws t = 3602879701896397 / 2 ^ 55"

definition near_draws :: "ticker \<Rightarrow> rat" where
  "near_draws t = 4391052420882693 / 2 ^ 52"

text \<open>
  An identity whose two thresholds for GOOG are both 100; an identity whose document has
  neither subscriptions nor alerts; and a server with two subscribed identities and an
  empty registry.
\<close>

definition both_user :: user where
  "both_user =
     \<lparr>email = ''a@x.io'', subscriptions = Some [''GOOG''],
      alerts = Some \<lparr>thresholds = Some [\<lparr>ticker = ''GOOG'', above = Some 100, below = Some 100\<rparr>]\<rparr>\<rparr>"

definition both_server :: server where
  "both_server =
     \<lparr>stockPrices = init_stockPrices (\<lambda>t. (0, 1 / 2, 1 / 2)),
      inMemoryUsers = [''a@x.io'' \<mapsto> both_user],
      userSockets = [(''a@x.io'', ''s1'')]\<rparr>"

definition bare_user :: user where
  "bare_user = \<lparr>email = ''b@x.io'', subscriptions = None, alerts = None\<rparr>"

definition bare_server :: server where
  "bare_server =
     \<lparr>stockPrices = init_stockPrices (\<lambda>t. (0, 1 / 2, 1 / 2)),
      inMemoryUsers = [''b@x.io'' \<mapsto> bare_user],
      userSockets = [(''b@x.io'', ''s2'')]\<rparr>"

definition second_user :: user where
  "second_user =
     \<lparr>email = ''b@x.io'', subscriptions = Some [''GOOG''], alerts = Some \<lparr>thresholds = Some []\<rparr>\<rparr>"

definition two_user_server :: server where
  "two_user_server =
     \<lparr>stockPrices = init_stockPrices (\<lambda>t. (0, 1 / 2, 1 / 2)),
      inMemoryUsers = [''a@x.io'' \<mapsto> example_user, ''b@x.io'' \<mapsto> second_user],
      userSockets = []\<rparr>"

text \<open>The two identities registered one after the other on the same socket \<open>s1\<close>.\<close>

definition shared_server :: server where
  "shared_server = fst (register ''b@x.io'' ''s1'' (fst (register ''a@x.io'' ''s1'' two_user_server)))"

text \<open>
  The example server one tick later, the tick with a delta of -5: all quotes at 95.00.
\<close>

definition cheap_server :: server where
  "cheap_server =
     example_server\<lparr>stockPrices :=
       (\<lambda>t. if t \<in> set SUPPORTED_STOCKS
            then Some \<lparr>price = 9500, change = - 500, changePercent = - 500\<rparr> else None)\<rparr>"

section \<open>Rounding to a double\<close>

lemma floor_rat_numeral [simp]:
  "\<lfloor>numeral a / numeral b :: rat\<rfloor> = numeral a div numeral b"
  using floor_divide_of_int_eq [of "numeral a" "numeral b", where ?'a = rat] by simp

lemma floor_rat_minus_numeral [simp]:
  "\<lfloor>- (numeral a / numeral b) :: rat\<rfloor> = - numeral a div numeral b"
  using floor_divide_of_int_eq [of "- numeral a" "numeral b", where ?'a = rat] by simp

lemma floor_rat_one [simp]:
  "\<lfloor>1 / numeral b :: rat\<rfloor> = 1 div numeral b"
  using floor_divide_of_int_eq [of 1 "numeral b", where ?'a = rat] by simp

lemma floor_rat_minus_one [simp]:
  "\<lfloor>- (1 / numeral b) :: rat\<rfloor> = - 1 div numeral b"
  using floor_divide_of_int_eq [of "- 1" "numeral b", where ?'a = rat] by simp

lemma bitlen_numeral [simp]: "bitlen (numeral k) = bitlen (numeral k div 2) + 1"
  by (subst compute_bitlen) simp

lemma bitlen_one [simp]: "bitlen 1 = 1"
  by (subst compute_bitlen) simp

lemmas dbl_eval = dbl_def quantum_def exponent_def round_even_def toFixed2_def ceiling_def

lemma powi_nat: "0 \<le> k \<Longrightarrow> (2::rat) powi k = 2 ^ nat k"
  by (simp add: power_int_def)

lemma bitlen_lower: "0 < m \<Longrightarrow> (2::rat) powi (bitlen m - 1) \<le> of_int m"
proof -
  assume m: "0 < m"
  then have b: "1 \<le> bitlen m" by (simp add: bitlen_alt_def)
  from bitlen_bounds [OF m] have "(2::int) ^ nat (bitlen m - 1) \<le> m" by simp
  then have "of_int ((2::int) ^ nat (bitlen m - 1)) \<le> (of_int m :: rat)" by (simp only: of_int_le_iff)
  then show ?thesis using b by (simp add: powi_nat)
qed

lemma bitlen_upper: "0 < m \<Longrightarrow> of_int m + 1 \<le> (2::rat) powi (bitlen m)"
proof -
  assume m: "0 < m"
  have b: "0 \<le> bitlen m" by (rule bitlen_nonneg)
  from bitlen_bounds [OF m] have "m + 1 \<le> (2::int) ^ nat (bitlen m)" by simp
  then have "(of_int (m + 1) :: rat) \<le> of_int ((2::int) ^ nat (bitlen m))" by (simp only: of_int_le_iff)
  then show ?thesis using b by (simp add: powi_nat)
qed

lemma exponent_le:
  assumes "0 < x"
  shows "2 powi (exponent x) \<le> x"
proof (cases "1 \<le> x")
  case True
  then have m: "0 < \<lfloor>x\<rfloor>" by simp
  have "(2::rat) powi (bitlen \<lfloor>x\<rfloor> - 1) \<le> of_int \<lfloor>x\<rfloor>" using m by (rule bitlen_lower)
  also have "\<dots> \<le> x" by simp
  finally show ?thesis using True by (simp add: exponent_def)
next
  case False
  let ?m = "\<lceil>1 / x\<rceil> - 1"
  from False assms have "1 < 1 / x" by simp
  then have m: "0 < ?m" by linarith
  have "1 / x \<le> of_int ?m + 1" by simp
  also have "\<dots> \<le> 2 powi (bitlen ?m)" using m by (rule bitlen_upper)
  finally have "1 / x \<le> 2 powi (bitlen ?m)" .
  then have "1 / 2 powi (bitlen ?m) \<le> x"
    using assms by (simp add: field_simps)
  moreover have "(2::rat) powi (- bitlen ?m) = 1 / 2 powi (bitlen ?m)"
    by (simp add: power_int_minus inverse_eq_divide)
  ultimately show ?thesis using False by (simp add: exponent_def)
qed

lemma exponent_gt:
  assumes "0 < x"
  shows "x < 2 powi (exponent x + 1)"
proof (cases "1 \<le> x")
  case True
  then have m: "0 < \<lfloor>x\<rfloor>" by simp
  have "x < of_int \<lfloor>x\<rfloor> + 1" by linarith
  also have "\<dots> \<le> 2 powi (bitlen \<lfloor>x\<rfloor>)" using m by (rule bitlen_upper)
  finally show ?thesis using True by (simp add: exponent_def)
next
  case False
  let ?m = "\<lceil>1 / x\<rceil> - 1"
  from False assms have "1 < 1 / x" by simp
  then have m: "0 < ?m" by linarith
  have "(2::rat) powi (bitlen ?m - 1) \<le> of_int ?m" using m by (rule bitlen_lower)
  also have "\<dots> < 1 / x" by linarith
  finally have "(2::rat) powi (bitlen ?m - 1) < 1 / x" .
  then have "x < 1 / 2 powi (bitlen ?m - 1)"
    using assms by (simp add: field_simps)
  moreover have "(2::rat) powi (- bitlen ?m + 1) = 1 / 2 powi (bitlen ?m - 1)"
  proof -
    have "- bitlen ?m + 1 = - (bitlen ?m - 1)" by simp
    then show ?thesis by (simp only: power_int_minus inverse_eq_divide)
  qed
  ultimately show ?thesis using False by (simp add: exponent_def)
qed

lemma quantum_pos: "0 < quantum x"
  by (simp add: quantum_def)

lemma quantum_le:
  assumes "0 < x"
  shows "quantum x \<le> (x + 1) / 2 ^ 20"
proof (cases "- 1074 \<le> exponent x - 52")
  case True
  then have "max (exponent x - 52) (- 1074) = exponent x - 52" by simp
  then have "quantum x = 2 powi (exponent x - 52)" by (simp only: quantum_def)
  also have "\<dots> = 2 powi (exponent x) / 2 ^ 52" by (simp add: power_int_diff)
  also have "\<dots> \<le> x / 2 ^ 52" using exponent_le [OF assms] by (simp add: divide_right_mono)
  also have "\<dots> \<le> x / 2 ^ 20" using assms by (simp add: frac_le)
  also have "\<dots> \<le> (x + 1) / 2 ^ 20" by (simp add: divide_right_mono)
  finally show ?thesis .
next
  case False
  then have "max (exponent x - 52) (- 1074) = - 1074" by simp
  then have "quantum x = 2 powi (- 1074)" by (simp only: quantum_def)
  also have "\<dots> \<le> (2::rat) powi (- 20)"
  proof (rule power_int_increasing)
    show "(- 1074 :: int) \<le> - 20" by linarith
    show "(1::rat) \<le> 2" by linarith
  qed
  also have "\<dots> = (1::rat) / 2 ^ 20" by (simp add: power_int_def inverse_eq_divide power_one_over)
  also have "\<dots> \<le> (x + 1) / 2 ^ 20" using assms by (simp add: divide_right_mono)
  finally show ?thesis .
qed

lemma round_even_bounds: "of_int (round_even y) \<le> y + 1" "y - 1 \<le> of_int (round_even y)"
  by (auto simp: round_even_def) linarith+

lemma round_even_nonneg: "0 \<le> y \<Longrightarrow> 0 \<le> round_even y"
  by (auto simp: round_even_def)

lemma dbl_pos_eq: "0 < x \<Longrightarrow> dbl x = of_int (round_even (x / quantum x)) * quantum x"
  by (simp add: dbl_def)

lemma dbl_minus: "dbl (- x) = - dbl x"
  by (simp add: dbl_def sgn_minus)

lemma dbl_nonneg: "0 \<le> x \<Longrightarrow> 0 \<le> dbl x"
proof (cases "x = 0")
  case True
  then show ?thesis by (simp add: dbl_def)
next
  case False
  assume "0 \<le> x"
  with False have x: "0 < x" by simp
  have "0 \<le> x / quantum x" using x quantum_pos [of x] by simp
  then have "0 \<le> round_even (x / quantum x)" by (rule round_even_nonneg)
  then show ?thesis using quantum_pos [of x] by (simp add: dbl_pos_eq [OF x])
qed

lemma abs_dbl: "\<bar>dbl x\<bar> = dbl \<bar>x\<bar>"
proof (cases "0 \<le> x")
  case True
  then show ?thesis using dbl_nonneg [of x] by simp
next
  case False
  then have "0 \<le> dbl (- x)" by (intro dbl_nonneg) simp
  with False show ?thesis by (simp add: dbl_minus abs_if)
qed

lemma dbl_err:
  assumes "0 < x"
  shows "x - (x + 1) / 2 ^ 20 \<le> dbl x" and "dbl x \<le> x + (x + 1) / 2 ^ 20"
proof -
  let ?q = "quantum x"
  have q: "0 < ?q" by (rule quantum_pos)
  have "dbl x \<le> (x / ?q + 1) * ?q"
    unfolding dbl_pos_eq [OF assms] using round_even_bounds(1) [of "x / ?q"] q
    by (simp add: mult_right_mono)
  also have "\<dots> = x + ?q" using q by (simp add: algebra_simps)
  finally show "dbl x \<le> x + (x + 1) / 2 ^ 20" using quantum_le [OF assms] by linarith
  have "(x / ?q - 1) * ?q \<le> dbl x"
    unfolding dbl_pos_eq [OF assms] using round_even_bounds(2) [of "x / ?q"] q
    by (simp add: mult_right_mono)
  moreover have "(x / ?q - 1) * ?q = x - ?q" using q by (simp add: algebra_simps)
  ultimately show "x - (x + 1) / 2 ^ 20 \<le> dbl x" using quantum_le [OF assms] by linarith
qed

lemma dbl_ge_10: "100 \<le> x \<Longrightarrow> 10 \<le> dbl x"
proof -
  assume a: "100 \<le> x"
  then have "0 < x" by simp
  from dbl_err(1) [OF this] a show ?thesis by (simp add: field_simps)
qed

lemma dbl_5: "dbl 5 = 5"
  by (simp add: dbl_eval)

lemma abs_parseFloat_gt_5: "5 < \<bar>parseFloat h\<bar> \<longleftrightarrow> 500 < \<bar>h\<bar>"
proof -
  let ?x = "of_int \<bar>h\<bar> / 100 :: rat"
  have a: "\<bar>parseFloat h\<bar> = dbl ?x" by (simp add: parseFloat_def abs_dbl)
  consider "\<bar>h\<bar> = 0" | "0 < \<bar>h\<bar>" "\<bar>h\<bar> \<le> 499" | "\<bar>h\<bar> = 500" | "501 \<le> \<bar>h\<bar>"
    by linarith
  then show ?thesis
  proof cases
    case 1
    then show ?thesis using a by (simp add: dbl_def)
  next
    case 2
    then have p: "0 < ?x" and u: "?x \<le> 499 / 100" by simp_all
    from dbl_err(2) [OF p] u have "dbl ?x < 5" by (simp add: field_simps)
    with 2 a show ?thesis by simp
  next
    case 3
    then show ?thesis using a dbl_5 by simp
  next
    case 4
    then have p: "0 < ?x" and l: "501 / 100 \<le> ?x" by simp_all
    from dbl_err(1) [OF p] l have "5 < dbl ?x" by (simp add: field_simps)
    with 4 a show ?thesis by simp
  qed
qed

section \<open>Rounding to two decimals\<close>

lemma toFixed2_ge: "10 \<le> x \<Longrightarrow> 1000 \<le> toFixed2 x"
proof -
  assume a: "10 \<le> x"
  then have "(1000::rat) \<le> x * 100 + 1 / 2" by simp
  then have "\<lfloor>(1000::rat)\<rfloor> \<le> \<lfloor>x * 100 + 1 / 2\<rfloor>" by (rule floor_mono)
  with a show ?thesis by (simp add: toFixed2_def)
qed

section \<open>The price floor\<close>

lemma update_price_floor: "1000 \<le> price (update_price r info)"
  by (simp add: update_price_def Let_def toFixed2_ge)

lemma init_priceInfo_floor: "0 \<le> fst r \<Longrightarrow> 1000 \<le> price (init_priceInfo r)"
proof -
  assume a: "0 \<le> fst r"
  obtain r1 r2 r3 where r: "r = (r1, r2, r3)" by (cases r)
  with a have "0 \<le> dbl (r1 * 1000)" by (intro dbl_nonneg) simp
  then have "10 \<le> dbl (dbl (r1 * 1000) + 100)" by (intro dbl_ge_10) simp
  then show ?thesis by (simp add: r init_priceInfo_def toFixed2_ge)
qed

lemma distinct_SUPPORTED: "distinct SUPPORTED_STOCKS"
  by (simp add: SUPPORTED_STOCKS_def)

lemma update_all_lookup:
  "distinct ts \<Longrightarrow> update_all rnd ts sp = Some sp' \<Longrightarrow>
   sp' t = (if t \<in> set ts then map_option (update_price (rnd t)) (sp t) else sp t)"
proof (induction ts arbitrary: sp)
  case Nil
  then show ?case by simp
next
  case (Cons a ts)
  then show ?case by (auto split: option.splits)
qed

lemma update_all_total:
  "distinct ts \<Longrightarrow> \<forall>t \<in> set ts. sp t \<noteq> None \<Longrightarrow> \<exists>sp'. update_all rnd ts sp = Some sp'"
proof (induction ts arbitrary: sp)
  case Nil
  then show ?case by simp
next
  case (Cons a ts)
  then show ?case by (auto split: option.splits)
qed

lemma floor_ok_iff: "floor_ok sp \<longleftrightarrow> (\<forall>t \<in> set SUPPORTED_STOCKS. \<exists>info. sp t = Some info \<and> 1000 \<le> price info)"
  by (auto simp: floor_ok_def list_all_iff split: option.splits)

lemma init_lookup: "init_stockPrices rnd t = (if t \<in> set SUPPORTED_STOCKS then Some (init_priceInfo (rnd t)) else None)"
  by (simp add: init_stockPrices_def SUPPORTED_STOCKS_def)

lemma floor_ok_init: "\<forall>t. 0 \<le> fst (rnd t) \<Longrightarrow> floor_ok (init_stockPrices rnd)"
  by (simp add: floor_ok_iff init_lookup init_priceInfo_floor)

lemma floor_ok_update_all:
  assumes "floor_ok sp"
  shows "\<exists>sp'. update_all rnd SUPPORTED_STOCKS sp = Some sp' \<and> floor_ok sp'"
proof -
  from assms have "\<forall>t \<in> set SUPPORTED_STOCKS. sp t \<noteq> None"
    by (auto simp: floor_ok_iff)
  then obtain sp' where sp': "update_all rnd SUPPORTED_STOCKS sp = Some sp'"
    using update_all_total [OF distinct_SUPPORTED] by blast
  have "floor_ok sp'"
    unfolding floor_ok_iff
  proof
    fix t assume t: "t \<in> set SUPPORTED_STOCKS"
    with assms obtain info where "sp t = Some info" by (auto simp: floor_ok_iff)
    with t have "sp' t = Some (update_price (rnd t) info)"
      using update_all_lookup [OF distinct_SUPPORTED sp', of t] by simp
    then show "\<exists>info. sp' t = Some info \<and> 1000 \<le> price info"
      by (simp add: update_price_floor)
  qed
  with sp' show ?thesis by blast
qed

lemma floor_ok_ticks:
  "floor_ok (stockPrices s) \<Longrightarrow> \<exists>s' out. ticks rnds s = Some (s', out) \<and> floor_ok (stockPrices s')"
proof (induction rnds arbitrary: s)
  case Nil
  then show ?case by simp
next
  case (Cons rnd rnds)
  from floor_ok_update_all [OF Cons.prems, of rnd]
  obtain sp' where sp': "update_all rnd SUPPORTED_STOCKS (stockPrices s) = Some sp'" "floor_ok sp'"
    by blast
  let ?s1 = "s\<lparr>stockPrices := sp'\<rparr>"
  have "floor_ok (stockPrices ?s1)" using sp' by simp
  from Cons.IH [OF this] obtain s' out where "ticks rnds ?s1 = Some (s', out)" "floor_ok (stockPrices s')"
    by blast
  with sp' show ?case by (simp add: tick_def)
qed

text \<open>
  C4. From the initial quotes (every draw of \<^verbatim>\<open>Math.random()\<close> is at least 0) any number
  of ticks runs to its end, and at the start and after the ticks every supported ticker
  has a quote with a price of at least 10.00.
\<close>

theorem price_floor_invariant:
  assumes "\<forall>t. 0 \<le> fst (rnd0 t)" and "stockPrices s = init_stockPrices rnd0"
  shows "floor_ok (stockPrices s) \<and>
         (\<exists>s' out. ticks rnds s = Some (s', out) \<and> floor_ok (stockPrices s'))"
  using assms floor_ok_init floor_ok_ticks by metis

theorem price_floor_invariant_witness:
  "floor_ok (stockPrices example_server) \<and>
   (\<exists>s' out. ticks [\<lambda>t. 0, \<lambda>t. 0] example_server = Some (s', out) \<and> floor_ok (stockPrices s'))"
  by (rule price_floor_invariant [of "\<lambda>t. (0, 1 / 2, 1 / 2)"]) (simp_all add: example_server_def)

section \<open>Structure of the fan-out\<close>

lemma map_of_js_set: "map_of (js_set kvs k v) = (map_of kvs)(k \<mapsto> v)"
  by (induction kvs) (auto simp: fun_eq_iff)

lemma keys_js_set: "fst ` set (js_set kvs k v) = insert k (fst ` set kvs)"
  by (induction kvs) auto

lemma distinct_js_set: "distinct (map fst kvs) \<Longrightarrow> distinct (map fst (js_set kvs k v))"
  by (induction kvs) (auto simp: keys_js_set)

lemma fold_sub_step_snd:
  "snd (fold (sub_step sid sp u) subs acc) = snd acc @ subscription_alerts sid sp u subs"
  by (induction subs arbitrary: acc)
     (auto simp: sub_step_def subscription_alerts_def split: option.splits)

lemma fold_sub_step_fst:
  "fst (fold (sub_step sid sp u) subs acc) =
   fold (\<lambda>t obj. case sp t of None \<Rightarrow> obj | Some info \<Rightarrow> js_set obj t info) subs (fst acc)"
  by (induction subs arbitrary: acc) (auto simp: sub_step_def split: option.splits)

lemma user_fanout_eq:
  "subscriptions u = Some subs \<Longrightarrow> subs \<noteq> [] \<Longrightarrow>
   user_fanout sid sp (Some u) =
     subscription_alerts sid sp u subs @ [(sid, StockUpdate (subscribedStocks sp subs))]"
  by (simp add: user_fanout_def Let_def fold_sub_step_snd fold_sub_step_fst subscribedStocks_def)

lemma user_fanout_empty: "no_subscriptions ou \<Longrightarrow> user_fanout sid sp ou = []"
  by (auto simp: no_subscriptions_def user_fanout_def split: option.splits)

lemma map_of_fold_obj:
  "map_of (fold (\<lambda>t obj. case sp t of None \<Rightarrow> obj | Some info \<Rightarrow> js_set obj t info) subs obj) t =
   (if t \<in> set subs \<and> sp t \<noteq> None then sp t else map_of obj t)"
  by (induction subs arbitrary: obj) (auto simp: map_of_js_set split: option.splits)

lemma distinct_fold_obj:
  "distinct (map fst obj) \<Longrightarrow>
   distinct (map fst (fold (\<lambda>t obj. case sp t of None \<Rightarrow> obj | Some info \<Rightarrow> js_set obj t info) subs obj))"
  by (induction subs arbitrary: obj) (auto simp: distinct_js_set split: option.splits)

lemma map_of_subscribedStocks:
  "map_of (subscribedStocks sp subs) t = (if t \<in> set subs then sp t else None)"
  by (auto simp: subscribedStocks_def map_of_fold_obj)

lemma distinct_subscribedStocks: "distinct (map fst (subscribedStocks sp subs))"
  by (simp add: subscribedStocks_def distinct_fold_obj)

lemma subscription_alerts_all:
  "list_all (\<lambda>m. fst m = sid \<and> is_alert (snd m)) (subscription_alerts sid sp u subs)"
  by (induction subs) (auto simp: subscription_alerts_def list_all_iff split: option.splits)

lemma subscription_alerts_Cons:
  "subscription_alerts sid sp u (t # subs) =
     (case sp t of None \<Rightarrow> []
      | Some info \<Rightarrow> map (\<lambda>a. (sid, PriceAlert a)) (ticker_alerts (thresholds_of u) t info))
     @ subscription_alerts sid sp u subs"
  by (simp add: subscription_alerts_def)

lemma set_subscription_alerts:
  "m \<in> set (subscription_alerts sid sp u subs) \<longleftrightarrow>
   (\<exists>a t info. m = (sid, PriceAlert a) \<and> t \<in> set subs \<and> sp t = Some info \<and>
      a \<in> set (ticker_alerts (thresholds_of u) t info))"
proof (induction subs)
  case Nil
  then show ?case by (simp add: subscription_alerts_def)
next
  case (Cons t subs)
  show ?case
  proof (cases "sp t")
    case None
    then show ?thesis using Cons by (auto simp: subscription_alerts_Cons)
  next
    case (Some info)
    then show ?thesis using Cons by (auto simp: subscription_alerts_Cons)
  qed
qed

lemma fanout_split:
  "fanout sp us (xs @ (e, sid) # ys) = fanout sp us xs @ user_fanout sid sp (us e) @ fanout sp us ys"
  by (simp add: fanout_def)

lemma set_fanout:
  "set (fanout sp us socks) = (\<Union>kv \<in> set socks. set (user_fanout (snd kv) sp (us (fst kv))))"
  by (auto simp: fanout_def)

lemma user_fanout_addr: "m \<in> set (user_fanout sid sp ou) \<Longrightarrow> fst m = sid"
  by (auto simp: user_fanout_def Let_def fold_sub_step_snd set_subscription_alerts split: option.splits if_splits)

section \<open>Order of one identity's messages\<close>

lemma tick_total:
  assumes "floor_ok (stockPrices s)"
  shows "\<exists>sp'. tick rnd s = Some (s\<lparr>stockPrices := sp'\<rparr>, fanout sp' (inMemoryUsers s) (userSockets s))
           \<and> update_all rnd SUPPORTED_STOCKS (stockPrices s) = Some sp' \<and> floor_ok sp'"
  using floor_ok_update_all [OF assms, of rnd] by (auto simp: tick_def)

lemma alerts_then_update_block:
  "list_all (\<lambda>m. fst m = sid \<and> is_alert (snd m)) as \<Longrightarrow> alerts_then_update (as @ [(sid, StockUpdate obj)])"
  by (simp add: alerts_then_update_def list_all_iff)

lemma one_update_block:
  "list_all (\<lambda>m. fst m = sid \<and> is_alert (snd m)) as \<Longrightarrow>
   length (filter (\<lambda>m. is_update (snd m)) (as @ [(sid, StockUpdate obj)])) = 1"
proof -
  assume a: "list_all (\<lambda>m. fst m = sid \<and> is_alert (snd m)) as"
  have "\<And>ev. is_alert ev \<Longrightarrow> \<not> is_update ev"
    by (case_tac ev) auto
  with a have "filter (\<lambda>m. is_update (snd m)) as = []"
    by (auto simp: list_all_iff filter_empty_conv)
  then show ?thesis by simp
qed

lemma update_price_eval:
  "update_price r info =
     \<lparr>price = toFixed2 (max 10 (dbl (parseFloat (price info) + dbl (dbl (r * 10) - 5)))),
      change = toFixed2 (dbl (dbl (r * 10) - 5)),
      changePercent = toFixed2 (raw_percent r info)\<rparr>"
  by (simp only: update_price_def raw_percent_def Let_def)

lemmas quote_eval = update_price_eval raw_percent_def parseFloat_def dbl_eval

lemma flat_update:
  "update_price (flat_draws t) \<lparr>price = 10000, change = 0, changePercent = 0\<rparr> =
     \<lparr>price = 10000, change = 0, changePercent = 0\<rparr>"
  by (simp add: flat_draws_def quote_eval)

lemma zero_update:
  "update_price (zero_draws t) \<lparr>price = 10000, change = 0, changePercent = 0\<rparr> =
     \<lparr>price = 9500, change = - 500, changePercent = - 500\<rparr>"
  by (simp add: zero_draws_def quote_eval)

lemma near_update:
  "update_price (near_draws t) \<lparr>price = 9500, change = - 500, changePercent = - 500\<rparr> =
     \<lparr>price = 9975, change = 475, changePercent = 500\<rparr>"
  by (simp add: near_draws_def quote_eval)

lemma parse_10000: "parseFloat 10000 = 100"
  by (simp add: quote_eval)

lemmas tick_eval = ticks_out_def ticks_prices_def tick_def SUPPORTED_STOCKS_def Let_def
  fanout_def user_fanout_def sub_step_def ticker_alerts_def thresholds_of_def
  abs_parseFloat_gt_5 parse_10000 flat_update zero_update near_update

lemma init_example:
  "init_priceInfo (0, 1 / 2, 1 / 2) = \<lparr>price = 10000, change = 0, changePercent = 0\<rparr>"
  by (simp add: init_priceInfo_def dbl_eval)

lemma example_prices:
  "init_stockPrices (\<lambda>t. (0, 1 / 2, 1 / 2)) =
     [''GOOG'' \<mapsto> \<lparr>price = 10000, change = 0, changePercent = 0\<rparr>,
      ''TSLA'' \<mapsto> \<lparr>price = 10000, change = 0, changePercent = 0\<rparr>,
      ''AMZN'' \<mapsto> \<lparr>price = 10000, change = 0, changePercent = 0\<rparr>,
      ''META'' \<mapsto> \<lparr>price = 10000, change = 0, changePercent = 0\<rparr>,
      ''NVDA'' \<mapsto> \<lparr>price = 10000, change = 0, changePercent = 0\<rparr>]"
  by (simp add: init_stockPrices_def SUPPORTED_STOCKS_def init_example)

lemma example_floor_ok: "floor_ok (init_stockPrices (\<lambda>t. (0, 1 / 2, 1 / 2)))"
  by (rule floor_ok_init) simp

text \<open>
  C1, as the code has it. On a registry with one entry per identity, for every identity
  in the registry with non-empty subscriptions a tick returns and its output is the
  messages of the identities registered before, then the identity's block, then the
  messages of the identities registered after; none of the others is this identity. The
  block goes to the identity's socket and is the alerts of its subscribed tickers, in
  subscription order, followed by exactly one stockUpdate, which comes last. The update
  carries the new quote of every subscribed ticker that has one, each ticker once.
\<close>

theorem update_after_alerts:
  assumes "floor_ok (stockPrices s)" and "distinct (map fst (userSockets s))"
    and "(e, sid) \<in> set (userSockets s)"
    and "inMemoryUsers s e = Some u" and "subscriptions u = Some subs" and "subs \<noteq> []"
  shows "\<exists>s' out xs ys block obj.
           tick rnd s = Some (s', out) \<and>
           userSockets s = xs @ (e, sid) # ys \<and> e \<notin> fst ` set xs \<and> e \<notin> fst ` set ys \<and>
           out = fanout (stockPrices s') (inMemoryUsers s) xs @ block @
                 fanout (stockPrices s') (inMemoryUsers s) ys \<and>
           block = user_fanout sid (stockPrices s') (Some u) \<and>
           block = subscription_alerts sid (stockPrices s') u subs @ [(sid, StockUpdate obj)] \<and>
           alerts_then_update block \<and>
           length (filter (\<lambda>m. is_update (snd m)) block) = 1 \<and>
           distinct (map fst obj) \<and>
           (\<forall>t. map_of obj t = (if t \<in> set subs then stockPrices s' t else None))"
proof -
  from tick_total [OF assms(1), of rnd] obtain sp' where
    t: "tick rnd s = Some (s\<lparr>stockPrices := sp'\<rparr>, fanout sp' (inMemoryUsers s) (userSockets s))"
    by blast
  from split_list [OF assms(3)] obtain xs ys where socks: "userSockets s = xs @ (e, sid) # ys"
    by blast
  from assms(2) have keys: "e \<notin> fst ` set xs \<and> e \<notin> fst ` set ys"
    unfolding socks by auto
  let ?block = "user_fanout sid sp' (Some u)"
  let ?obj = "subscribedStocks sp' subs"
  have split: "fanout sp' (inMemoryUsers s) (userSockets s) =
      fanout sp' (inMemoryUsers s) xs @ ?block @ fanout sp' (inMemoryUsers s) ys"
    by (simp add: socks fanout_split assms(4))
  have block: "?block = subscription_alerts sid sp' u subs @ [(sid, StockUpdate ?obj)]"
    using assms(5,6) by (rule user_fanout_eq)
  have order: "alerts_then_update ?block"
    unfolding block by (rule alerts_then_update_block) (rule subscription_alerts_all)
  have one: "length (filter (\<lambda>m. is_update (snd m)) ?block) = 1"
    unfolding block by (rule one_update_block) (rule subscription_alerts_all)
  have content: "\<forall>t. map_of ?obj t = (if t \<in> set subs then sp' t else None)"
    by (simp add: map_of_subscribedStocks)
  show ?thesis
    using t socks keys split block order one content distinct_subscribedStocks [of sp' subs]
    by (intro exI [of _ "s\<lparr>stockPrices := sp'\<rparr>"] exI [of _ "fanout sp' (inMemoryUsers s) (userSockets s)"]
          exI [of _ xs] exI [of _ ys] exI [of _ ?block] exI [of _ ?obj]) simp
qed

theorem update_after_alerts_witness:
  "\<exists>s' out xs ys block obj.
           tick flat_draws alerting_server = Some (s', out) \<and>
           userSockets alerting_server = xs @ (''a@x.io'', ''s1'') # ys \<and>
           ''a@x.io'' \<notin> fst ` set xs \<and> ''a@x.io'' \<notin> fst ` set ys \<and>
           out = fanout (stockPrices s') (inMemoryUsers alerting_server) xs @ block @
                 fanout (stockPrices s') (inMemoryUsers alerting_server) ys \<and>
           block = user_fanout ''s1'' (stockPrices s') (Some alerting_user) \<and>
           block = subscription_alerts ''s1'' (stockPrices s') alerting_user [''GOOG''] @ [(''s1'', StockUpdate obj)] \<and>
           alerts_then_update block \<and>
           length (filter (\<lambda>m. is_update (snd m)) block) = 1 \<and>
           distinct (map fst obj) \<and>
           (\<forall>t. map_of obj t = (if t \<in> set [''GOOG''] then stockPrices s' t else None))"
  by (rule update_after_alerts [where s = alerting_server and e = "''a@x.io''"])
     (simp_all add: alerting_server_def alerting_user_def example_floor_ok)

text \<open>
  C1, as the specification words it (the stockUpdate first, the alerts after it), fails:
  with GOOG at 100.00 and a threshold of 50 the tick emits the threshold-above alert and
  then the stockUpdate.
\<close>

theorem update_first_counterexample:
  "ticks_out [flat_draws] alerting_server =
     [(''s1'', PriceAlert (ThresholdAbove ''GOOG'' 50 100)),
      (''s1'', StockUpdate [(''GOOG'', \<lparr>price = 10000, change = 0, changePercent = 0\<rparr>)])]
   \<and> \<not> update_then_alerts (ticks_out [flat_draws] alerting_server)"
  by (simp add: alerting_server_def alerting_user_def example_prices tick_eval)

section \<open>The quote of one tick\<close>

lemma tick_lookup:
  assumes "floor_ok (stockPrices s)" and "t \<in> set SUPPORTED_STOCKS" and "stockPrices s t = Some old"
  shows "\<exists>sp'. tick rnd s = Some (s\<lparr>stockPrices := sp'\<rparr>, fanout sp' (inMemoryUsers s) (userSockets s))
           \<and> sp' t = Some (update_price (rnd t) old)"
proof -
  from tick_total [OF assms(1), of rnd] obtain sp' where
    t: "tick rnd s = Some (s\<lparr>stockPrices := sp'\<rparr>, fanout sp' (inMemoryUsers s) (userSockets s))"
    and u: "update_all rnd SUPPORTED_STOCKS (stockPrices s) = Some sp'"
    by blast
  have "sp' t = Some (update_price (rnd t) old)"
    using update_all_lookup [OF distinct_SUPPORTED u, of t] assms(2,3) by simp
  with t show ?thesis by blast
qed

lemma ticks_prices_fold:
  assumes "floor_ok (stockPrices s)" and "t \<in> set SUPPORTED_STOCKS" and "stockPrices s t = Some old"
  shows "ticks_prices rnds s t = Some (fold (\<lambda>rnd. update_price (rnd t)) rnds old)"
  using assms
proof (induction rnds arbitrary: s old)
  case Nil
  then show ?case by (simp add: ticks_prices_def)
next
  case (Cons rnd rnds)
  from tick_total [OF Cons.prems(1), of rnd] obtain sp' where
    t: "tick rnd s = Some (s\<lparr>stockPrices := sp'\<rparr>, fanout sp' (inMemoryUsers s) (userSockets s))"
    and u: "update_all rnd SUPPORTED_STOCKS (stockPrices s) = Some sp'" and f: "floor_ok sp'"
    by blast
  let ?s1 = "s\<lparr>stockPrices := sp'\<rparr>"
  have n: "stockPrices ?s1 t = Some (update_price (rnd t) old)"
    using update_all_lookup [OF distinct_SUPPORTED u, of t] Cons.prems(2,3) by simp
  have f1: "floor_ok (stockPrices ?s1)" using f by simp
  from Cons.IH [OF f1 Cons.prems(2) n]
  have ih: "ticks_prices rnds ?s1 t = Some (fold (\<lambda>rnd. update_price (rnd t)) rnds (update_price (rnd t) old))" .
  from floor_ok_ticks [OF f1, of rnds] obtain s2 out2 where r: "ticks rnds ?s1 = Some (s2, out2)"
    by blast
  from t r have "ticks_prices (rnd # rnds) s = ticks_prices rnds ?s1"
    by (simp add: ticks_prices_def)
  with ih show ?case by simp
qed

lemma update_price_fields:
  "change (update_price r old) = toFixed2 (dbl (dbl (r * 10) - 5))"
  "changePercent (update_price r old) = toFixed2 (raw_percent r old)"
  "price (update_price r old) =
     toFixed2 (max 10 (dbl (parseFloat (price old) + dbl (dbl (r * 10) - 5))))"
  by (simp_all add: update_price_def raw_percent_def Let_def)

lemma example_GOOG: "stockPrices example_server ''GOOG'' = Some \<lparr>price = 10000, change = 0, changePercent = 0\<rparr>"
  by (simp add: example_server_def example_prices)

lemma example_server_floor_ok: "floor_ok (stockPrices example_server)"
  by (simp add: example_server_def example_floor_ok)

text \<open>
  C3 says that the reported change is the new price minus the price of the prior tick,
  also when the floor clamps the price, and that the reported percent change is 100 times
  that change over the prior price. The code at a tick that clamps: from the start-up
  state with all prices at 100.00, twenty-two ticks with a delta of -4 bring GOOG to
  12.00; the next tick clamps the price to 10.00, a move of -2.00 or -16.67 percent, and
  reports a change of -4.00 and a percent change of -33.33.
\<close>

lemma low_run:
  "fold (\<lambda>rnd. update_price (rnd ''GOOG'')) (replicate 22 low_draws)
     \<lparr>price = 10000, change = 0, changePercent = 0\<rparr> =
   \<lparr>price = 1200, change = - 400, changePercent = - 2500\<rparr>"
  by (simp add: eval_nat_numeral low_draws_def quote_eval)

lemma low_update:
  "update_price (low_draws t) \<lparr>price = 1200, change = - 400, changePercent = - 2500\<rparr> =
     \<lparr>price = 1000, change = - 400, changePercent = - 3333\<rparr>"
  by (simp add: low_draws_def quote_eval)

theorem change_under_floor:
  "ticks_prices (replicate 22 low_draws) example_server ''GOOG'' =
     Some \<lparr>price = 1200, change = - 400, changePercent = - 2500\<rparr>
   \<and> ticks_prices (replicate 23 low_draws) example_server ''GOOG'' =
     Some \<lparr>price = 1000, change = - 400, changePercent = - 3333\<rparr>
   \<and> \<not> change_is_price_difference \<lparr>price = 1200, change = - 400, changePercent = - 2500\<rparr>
         \<lparr>price = 1000, change = - 400, changePercent = - 3333\<rparr>"
proof -
  have sup: "''GOOG'' \<in> set SUPPORTED_STOCKS" by (simp add: SUPPORTED_STOCKS_def)
  note run = ticks_prices_fold [OF example_server_floor_ok sup example_GOOG]
  have a: "ticks_prices (replicate 22 low_draws) example_server ''GOOG'' =
     Some \<lparr>price = 1200, change = - 400, changePercent = - 2500\<rparr>"
    by (simp only: run low_run)
  have "replicate (Suc 22) low_draws = replicate 22 low_draws @ [low_draws]"
    by (simp only: replicate_Suc replicate_append_same)
  moreover have "(23::nat) = Suc 22" by simp
  ultimately have "replicate 23 low_draws = replicate 22 low_draws @ [low_draws]"
    by (simp only:)
  then have b: "ticks_prices (replicate 23 low_draws) example_server ''GOOG'' =
     Some \<lparr>price = 1000, change = - 400, changePercent = - 3333\<rparr>"
    by (simp only: run fold_append fold.simps comp_apply id_apply low_run low_update)
  show ?thesis using a b by (simp add: change_is_price_difference_def)
qed

section \<open>Sudden-change alerts\<close>

lemma sudden_in_ticker_alerts:
  "(\<exists>a \<in> set (ticker_alerts ths t' info). is_sudden t (PriceAlert a)) \<longleftrightarrow>
   (t' = t \<and> 5 < \<bar>parseFloat (changePercent info)\<bar>)"
  by (auto simp: ticker_alerts_def Let_def split: option.splits if_splits)

lemma ex_subscription_alerts:
  "(\<exists>m \<in> set (subscription_alerts sid sp u subs). P (snd m)) \<longleftrightarrow>
   (\<exists>t' \<in> set subs. \<exists>info. sp t' = Some info \<and>
       (\<exists>a \<in> set (ticker_alerts (thresholds_of u) t' info). P (PriceAlert a)))"
proof (induction subs)
  case Nil
  then show ?case by (simp add: subscription_alerts_def)
next
  case (Cons t subs)
  show ?case
  proof (cases "sp t")
    case None
    then show ?thesis using Cons by (simp add: subscription_alerts_Cons)
  next
    case (Some info)
    then show ?thesis using Cons by (simp add: subscription_alerts_Cons bex_Un)
  qed
qed

lemma sudden_in_subscription_alerts:
  "(\<exists>m \<in> set (subscription_alerts sid sp u subs). is_sudden t (snd m)) \<longleftrightarrow>
   (t \<in> set subs \<and> (\<exists>info. sp t = Some info \<and> 5 < \<bar>parseFloat (changePercent info)\<bar>))"
  unfolding ex_subscription_alerts sudden_in_ticker_alerts by auto

lemma sudden_in_user_fanout:
  "(\<exists>m \<in> set (user_fanout sid sp ou). is_sudden t (snd m)) \<longleftrightarrow>
   (\<exists>u subs info. ou = Some u \<and> subscriptions u = Some subs \<and> t \<in> set subs \<and>
      sp t = Some info \<and> 5 < \<bar>parseFloat (changePercent info)\<bar>)"
proof (cases "no_subscriptions ou")
  case True
  then show ?thesis
    by (auto simp: user_fanout_empty no_subscriptions_def split: option.splits)
next
  case False
  then obtain u subs where u: "ou = Some u" "subscriptions u = Some subs" "subs \<noteq> []"
    by (auto simp: no_subscriptions_def split: option.splits)
  have "(\<exists>m \<in> set (user_fanout sid sp ou). is_sudden t (snd m)) \<longleftrightarrow>
        (\<exists>m \<in> set (subscription_alerts sid sp u subs). is_sudden t (snd m))"
    using u by (simp add: user_fanout_eq)
  with u show ?thesis by (simp add: sudden_in_subscription_alerts)
qed

lemma sudden_alert_sent_fanout:
  "sudden_alert_sent sid t (fanout sp us socks) \<longleftrightarrow>
   (\<exists>e u subs info. (e, sid) \<in> set socks \<and> us e = Some u \<and> subscriptions u = Some subs \<and>
      t \<in> set subs \<and> sp t = Some info \<and> 5 < \<bar>parseFloat (changePercent info)\<bar>)"
proof -
  have "sudden_alert_sent sid t (fanout sp us socks) \<longleftrightarrow>
        (\<exists>kv \<in> set socks. \<exists>m \<in> set (user_fanout (snd kv) sp (us (fst kv))). fst m = sid \<and> is_sudden t (snd m))"
    by (auto simp: sudden_alert_sent_def list_ex_iff set_fanout)
  also have "\<dots> \<longleftrightarrow> (\<exists>kv \<in> set socks. snd kv = sid \<and> (\<exists>m \<in> set (user_fanout (snd kv) sp (us (fst kv))). is_sudden t (snd m)))"
    by (metis user_fanout_addr)
  also have "\<dots> \<longleftrightarrow> (\<exists>e. (e, sid) \<in> set socks \<and> (\<exists>m \<in> set (user_fanout sid sp (us e)). is_sudden t (snd m)))"
    by force
  finally show ?thesis by (simp add: sudden_in_user_fanout)
qed

lemma cheap_server_reached:
  "list_all (\<lambda>t. ticks_prices [zero_draws] example_server t = stockPrices cheap_server t)
     SUPPORTED_STOCKS"
  by (simp add: cheap_server_def example_server_def example_prices tick_eval)

lemma cheap_floor_ok: "floor_ok (stockPrices cheap_server)"
  by (simp add: cheap_server_def floor_ok_def SUPPORTED_STOCKS_def)

lemma cheap_pct:
  "toFixed2 (raw_percent (zero_draws ''GOOG'') \<lparr>price = 9500, change = - 500, changePercent = - 500\<rparr>)
     = - 526"
  by (simp add: zero_draws_def quote_eval)

lemma toFixed2_band:
  assumes "999 / 200 \<le> \<bar>x\<bar>" and "\<bar>x\<bar> < 1001 / 200"
  shows "\<bar>toFixed2 x\<bar> = 500"
proof (cases "x < 0")
  case True
  with assms have "of_int 500 \<le> - x * 100 + 1 / 2" and "- x * 100 + 1 / 2 < of_int 500 + 1"
    by simp_all
  then have "\<lfloor>- x * 100 + 1 / 2\<rfloor> = 500" by (rule floor_unique)
  with True show ?thesis by (simp add: toFixed2_def)
next
  case False
  with assms have "of_int 500 \<le> x * 100 + 1 / 2" and "x * 100 + 1 / 2 < of_int 500 + 1"
    by simp_all
  then have "\<lfloor>x * 100 + 1 / 2\<rfloor> = 500" by (rule floor_unique)
  with False show ?thesis by (simp add: toFixed2_def)
qed

text \<open>
  C2, as the code has it. For a registered identity and a supported ticker it subscribes
  to, a tick returns and emits a sudden-change alert for the ticker to the identity's
  socket if and only if the absolute value of the reported percent change, the
  two-decimal string that \<^verbatim>\<open>toFixed(2)\<close> made of the computed percent change, is
  strictly greater than 5. A computed percent change from 4.995 up to, not including,
  5.005 in absolute value, such as 5.0 and 5.0001, is reported as 5.00 and does not fire.
\<close>

theorem sudden_change_rounded:
  assumes "floor_ok (stockPrices s)" and "(e, sid) \<in> set (userSockets s)"
    and "inMemoryUsers s e = Some u" and "subscriptions u = Some subs" and "t \<in> set subs"
    and "t \<in> set SUPPORTED_STOCKS" and "stockPrices s t = Some old"
  shows "\<exists>s' out new.
           tick rnd s = Some (s', out) \<and> stockPrices s' t = Some new \<and>
           changePercent new = toFixed2 (raw_percent (rnd t) old) \<and>
           (sudden_alert_sent sid t out \<longleftrightarrow> 5 < \<bar>parseFloat (changePercent new)\<bar>) \<and>
           (sudden_alert_sent sid t out \<longleftrightarrow> 500 < \<bar>changePercent new\<bar>) \<and>
           (999 / 200 \<le> \<bar>raw_percent (rnd t) old\<bar> \<and> \<bar>raw_percent (rnd t) old\<bar> < 1001 / 200
              \<longrightarrow> \<not> sudden_alert_sent sid t out)"
proof -
  from tick_lookup [OF assms(1,6,7), of rnd] obtain sp' where
    t: "tick rnd s = Some (s\<lparr>stockPrices := sp'\<rparr>, fanout sp' (inMemoryUsers s) (userSockets s))"
    and n: "sp' t = Some (update_price (rnd t) old)"
    by blast
  let ?new = "update_price (rnd t) old"
  let ?out = "fanout sp' (inMemoryUsers s) (userSockets s)"
  have a: "sudden_alert_sent sid t ?out \<longleftrightarrow> 5 < \<bar>parseFloat (changePercent ?new)\<bar>"
    using assms(2-5) n by (auto simp: sudden_alert_sent_fanout)
  have b: "sudden_alert_sent sid t ?out \<longleftrightarrow> 500 < \<bar>changePercent ?new\<bar>"
    using a by (simp only: abs_parseFloat_gt_5)
  have c: "999 / 200 \<le> \<bar>raw_percent (rnd t) old\<bar> \<and> \<bar>raw_percent (rnd t) old\<bar> < 1001 / 200
              \<longrightarrow> \<not> sudden_alert_sent sid t ?out"
    using b toFixed2_band [of "raw_percent (rnd t) old"] by (simp add: update_price_fields(2))
  show ?thesis
    using t n a b c
    by (intro exI [of _ "s\<lparr>stockPrices := sp'\<rparr>"] exI [of _ ?out] exI [of _ ?new])
       (simp add: update_price_fields(2))
qed

theorem sudden_change_rounded_witness:
  "\<exists>s' out new.
           tick zero_draws cheap_server = Some (s', out) \<and> stockPrices s' ''GOOG'' = Some new \<and>
           changePercent new = - 526 \<and> sudden_alert_sent ''s1'' ''GOOG'' out"
proof -
  have r: "(''a@x.io'', ''s1'') \<in> set (userSockets cheap_server)"
    by (simp add: cheap_server_def example_server_def)
  have u: "inMemoryUsers cheap_server ''a@x.io'' = Some example_user"
    by (simp add: cheap_server_def example_server_def)
  have sb: "subscriptions example_user = Some [''GOOG'']" by (simp add: example_user_def)
  have m: "''GOOG'' \<in> set [''GOOG'']" by simp
  have sup: "''GOOG'' \<in> set SUPPORTED_STOCKS" by (simp add: SUPPORTED_STOCKS_def)
  have old: "stockPrices cheap_server ''GOOG'' = Some \<lparr>price = 9500, change = - 500, changePercent = - 500\<rparr>"
    by (simp add: cheap_server_def SUPPORTED_STOCKS_def)
  from sudden_change_rounded [OF cheap_floor_ok r u sb m sup old, of zero_draws]
  obtain s' out new where
    h: "tick zero_draws cheap_server = Some (s', out)" "stockPrices s' ''GOOG'' = Some new"
       "changePercent new =
          toFixed2 (raw_percent (zero_draws ''GOOG'') \<lparr>price = 9500, change = - 500, changePercent = - 500\<rparr>)"
       "sudden_alert_sent ''s1'' ''GOOG'' out \<longleftrightarrow> 500 < \<bar>changePercent new\<bar>"
    by blast
  from h(3) have "changePercent new = - 526" by (simp only: cheap_pct)
  with h show ?thesis by auto
qed

text \<open>
  C2, as the specification words it (a percent change of 5.0001 fires), fails. After a
  first tick that takes GOOG from 100.00 to 95.00 (a change of exactly -5.00 percent,
  no alert), the second tick draws a delta whose computed percent change is above 5, within
  a millionth of a millionth of 5.0001; it is reported as 5.00 and no sudden-change alert
  is emitted in either tick.
\<close>

theorem sudden_change_counterexample:
  "ticks_prices [zero_draws] example_server ''GOOG'' = Some \<lparr>price = 9500, change = - 500, changePercent = - 500\<rparr>
   \<and> 5 < raw_percent (near_draws ''GOOG'') \<lparr>price = 9500, change = - 500, changePercent = - 500\<rparr>
   \<and> \<bar>raw_percent (near_draws ''GOOG'') \<lparr>price = 9500, change = - 500, changePercent = - 500\<rparr> - 50001 / 10000\<bar>
       < 1 / 10 ^ 12
   \<and> ticks_prices [zero_draws, near_draws] example_server ''GOOG'' = Some \<lparr>price = 9975, change = 475, changePercent = 500\<rparr>
   \<and> \<not> sudden_alert_sent ''s1'' ''GOOG'' (ticks_out [zero_draws, near_draws] example_server)"
proof -
  let ?old = "\<lparr>price = 9500, change = - 500, changePercent = - 500\<rparr>"
  have a: "ticks_prices [zero_draws] example_server ''GOOG'' = Some ?old"
    by (simp add: example_server_def example_prices tick_eval)
  have b: "5 < raw_percent (near_draws ''GOOG'') ?old"
    by (simp add: near_draws_def quote_eval)
  have c: "\<bar>raw_percent (near_draws ''GOOG'') ?old - 50001 / 10000\<bar> < 1 / 10 ^ 12"
    by (simp add: near_draws_def quote_eval)
  have d: "ticks_prices [zero_draws, near_draws] example_server ''GOOG'' =
      Some \<lparr>price = 9975, change = 475, changePercent = 500\<rparr>"
    by (simp add: example_server_def example_prices tick_eval)
  have e: "\<not> sudden_alert_sent ''s1'' ''GOOG'' (ticks_out [zero_draws, near_draws] example_server)"
    by (simp add: example_server_def example_user_def example_prices tick_eval sudden_alert_sent_def)
  from a b c d e show ?thesis by (intro conjI)
qed

section \<open>Threshold alerts\<close>

lemma above_in_ticker_alerts:
  "(\<exists>a \<in> set (ticker_alerts ths t' info). is_above t (PriceAlert a)) \<longleftrightarrow>
   (t' = t \<and> (\<exists>cfg x. find (\<lambda>c. ticker c = t) ths = Some cfg \<and> above cfg = Some x \<and>
       x \<le> parseFloat (price info)))"
proof (cases "find (\<lambda>c. ticker c = t') ths")
  case None
  then show ?thesis by (auto simp: ticker_alerts_def Let_def)
next
  case (Some cfg)
  then show ?thesis
    by (cases "above cfg"; cases "below cfg") (auto simp: ticker_alerts_def Let_def)
qed

lemma below_in_ticker_alerts:
  "(\<exists>a \<in> set (ticker_alerts ths t' info). is_below t (PriceAlert a)) \<longleftrightarrow>
   (t' = t \<and> (\<exists>cfg x. find (\<lambda>c. ticker c = t) ths = Some cfg \<and> below cfg = Some x \<and>
       parseFloat (price info) \<le> x))"
proof (cases "find (\<lambda>c. ticker c = t') ths")
  case None
  then show ?thesis by (auto simp: ticker_alerts_def Let_def)
next
  case (Some cfg)
  then show ?thesis
    by (cases "above cfg"; cases "below cfg") (auto simp: ticker_alerts_def Let_def)
qed

lemma above_alert_sent_iff:
  assumes "subscriptions u = Some subs" and "t \<in> set subs" and "sp t = Some info"
    and "find (\<lambda>c. ticker c = t) (thresholds_of u) = Some cfg"
  shows "above_alert_sent t (user_fanout sid sp (Some u)) \<longleftrightarrow>
         (\<exists>a. above cfg = Some a \<and> a \<le> parseFloat (price info))"
proof -
  from assms(2) have ne: "subs \<noteq> []" by auto
  have "above_alert_sent t (user_fanout sid sp (Some u)) \<longleftrightarrow>
        (\<exists>m \<in> set (subscription_alerts sid sp u subs). is_above t (snd m))"
    by (simp add: above_alert_sent_def list_ex_iff user_fanout_eq [OF assms(1) ne])
  also have "\<dots> \<longleftrightarrow> (\<exists>a. above cfg = Some a \<and> a \<le> parseFloat (price info))"
    unfolding ex_subscription_alerts above_in_ticker_alerts using assms(2-4) by auto
  finally show ?thesis .
qed

lemma below_alert_sent_iff:
  assumes "subscriptions u = Some subs" and "t \<in> set subs" and "sp t = Some info"
    and "find (\<lambda>c. ticker c = t) (thresholds_of u) = Some cfg"
  shows "below_alert_sent t (user_fanout sid sp (Some u)) \<longleftrightarrow>
         (\<exists>b. below cfg = Some b \<and> parseFloat (price info) \<le> b)"
proof -
  from assms(2) have ne: "subs \<noteq> []" by auto
  have "below_alert_sent t (user_fanout sid sp (Some u)) \<longleftrightarrow>
        (\<exists>m \<in> set (subscription_alerts sid sp u subs). is_below t (snd m))"
    by (simp add: below_alert_sent_def list_ex_iff user_fanout_eq [OF assms(1) ne])
  also have "\<dots> \<longleftrightarrow> (\<exists>b. below cfg = Some b \<and> parseFloat (price info) \<le> b)"
    unfolding ex_subscription_alerts below_in_ticker_alerts using assms(2-4) by auto
  finally show ?thesis .
qed

text \<open>
  C5. For a registered identity, a supported ticker it subscribes to and the threshold entry
  configured for that ticker (the first one found), a tick returns and the identity's block
  of messages holds a threshold-above alert for the ticker if and only if the entry has an
  \<open>above\<close> value and the new price is at or above it, and a threshold-below alert if and
  only if the entry has a \<open>below\<close> value and the new price is at or below it; when the
  price satisfies both conditions both alerts are in the block.
\<close>

theorem threshold_alerts:
  assumes "floor_ok (stockPrices s)" and "(e, sid) \<in> set (userSockets s)"
    and "inMemoryUsers s e = Some u" and "subscriptions u = Some subs" and "t \<in> set subs"
    and "t \<in> set SUPPORTED_STOCKS"
    and "find (\<lambda>c. ticker c = t) (thresholds_of u) = Some cfg"
  shows "\<exists>s' out pre post block new.
           tick rnd s = Some (s', out) \<and> out = pre @ block @ post \<and>
           block = user_fanout sid (stockPrices s') (Some u) \<and>
           stockPrices s' t = Some new \<and>
           (above_alert_sent t block \<longleftrightarrow> (\<exists>a. above cfg = Some a \<and> parseFloat (price new) \<ge> a)) \<and>
           (below_alert_sent t block \<longleftrightarrow> (\<exists>b. below cfg = Some b \<and> parseFloat (price new) \<le> b)) \<and>
           ((\<exists>a b. above cfg = Some a \<and> below cfg = Some b \<and>
                   parseFloat (price new) \<ge> a \<and> parseFloat (price new) \<le> b)
              \<longrightarrow> above_alert_sent t block \<and> below_alert_sent t block)"
proof -
  from assms(1,6) obtain old where old: "stockPrices s t = Some old"
    by (auto simp: floor_ok_iff)
  from tick_lookup [OF assms(1,6) old, of rnd] obtain sp' where
    t: "tick rnd s = Some (s\<lparr>stockPrices := sp'\<rparr>, fanout sp' (inMemoryUsers s) (userSockets s))"
    and n: "sp' t = Some (update_price (rnd t) old)"
    by blast
  from split_list [OF assms(2)] obtain xs ys where socks: "userSockets s = xs @ (e, sid) # ys"
    by blast
  let ?block = "user_fanout sid sp' (Some u)"
  let ?new = "update_price (rnd t) old"
  have split: "fanout sp' (inMemoryUsers s) (userSockets s) =
      fanout sp' (inMemoryUsers s) xs @ ?block @ fanout sp' (inMemoryUsers s) ys"
    by (simp add: socks fanout_split assms(3))
  have a: "above_alert_sent t ?block \<longleftrightarrow> (\<exists>a. above cfg = Some a \<and> a \<le> parseFloat (price ?new))"
    using assms(4,5) n assms(7) by (rule above_alert_sent_iff)
  have b: "below_alert_sent t ?block \<longleftrightarrow> (\<exists>b. below cfg = Some b \<and> parseFloat (price ?new) \<le> b)"
    using assms(4,5) n assms(7) by (rule below_alert_sent_iff)
  have c: "(\<exists>a b. above cfg = Some a \<and> below cfg = Some b \<and>
                   parseFloat (price ?new) \<ge> a \<and> parseFloat (price ?new) \<le> b)
              \<longrightarrow> above_alert_sent t ?block \<and> below_alert_sent t ?block"
    using a b by blast
  show ?thesis
    using t n split a b c
    by (intro exI [of _ "s\<lparr>stockPrices := sp'\<rparr>"] exI [of _ "fanout sp' (inMemoryUsers s) (userSockets s)"]
          exI [of _ "fanout sp' (inMemoryUsers s) xs"] exI [of _ "fanout sp' (inMemoryUsers s) ys"]
          exI [of _ ?block] exI [of _ ?new]) simp
qed

theorem threshold_alerts_witness:
  "\<exists>s' out pre post block new.
           tick flat_draws both_server = Some (s', out) \<and> out = pre @ block @ post \<and>
           block = user_fanout ''s1'' (stockPrices s') (Some both_user) \<and>
           stockPrices s' ''GOOG'' = Some new \<and> price new = 10000 \<and>
           above_alert_sent ''GOOG'' block \<and> below_alert_sent ''GOOG'' block"
proof -
  have f: "floor_ok (stockPrices both_server)"
    by (simp add: both_server_def example_floor_ok)
  have r: "(''a@x.io'', ''s1'') \<in> set (userSockets both_server)"
    by (simp add: both_server_def)
  have u: "inMemoryUsers both_server ''a@x.io'' = Some both_user"
    by (simp add: both_server_def)
  have sb: "subscriptions both_user = Some [''GOOG'']"
    by (simp add: both_user_def)
  have c: "find (\<lambda>c. ticker c = ''GOOG'') (thresholds_of both_user) =
           Some \<lparr>ticker = ''GOOG'', above = Some 100, below = Some 100\<rparr>"
    by (simp add: both_user_def thresholds_of_def)
  have m: "''GOOG'' \<in> set [''GOOG'']" by simp
  have sup: "''GOOG'' \<in> set SUPPORTED_STOCKS" by (simp add: SUPPORTED_STOCKS_def)
  from threshold_alerts [OF f r u sb m sup c, of flat_draws]
  obtain s' out pre post block new where
    h: "tick flat_draws both_server = Some (s', out)" "out = pre @ block @ post"
      "block = user_fanout ''s1'' (stockPrices s') (Some both_user)"
      "stockPrices s' ''GOOG'' = Some new"
      "(\<exists>a b. above \<lparr>ticker = ''GOOG'', above = Some 100, below = Some 100\<rparr> = Some a \<and>
              below \<lparr>ticker = ''GOOG'', above = Some 100, below = Some 100\<rparr> = Some b \<and>
              parseFloat (price new) \<ge> a \<and> parseFloat (price new) \<le> b)
         \<longrightarrow> above_alert_sent ''GOOG'' block \<and> below_alert_sent ''GOOG'' block"
    by blast
  from h(1,4) have "price new = 10000"
    by (auto simp: tick_def both_server_def example_prices SUPPORTED_STOCKS_def flat_update)
  with h show ?thesis by (auto simp: parse_10000)
qed

section \<open>Identities with missing fields\<close>

lemma fanout_drop_silent:
  "no_subscriptions (us e) \<Longrightarrow> fanout sp us socks = fanout sp us (filter (\<lambda>kv. fst kv \<noteq> e) socks)"
  by (induction socks) (auto simp: fanout_def user_fanout_empty)

lemma thresholds_of_missing:
  "alerts u = None \<or> (\<exists>a. alerts u = Some a \<and> thresholds a = None) \<Longrightarrow> thresholds_of u = []"
  by (auto simp: thresholds_of_def)

lemma sub_step_thresholds:
  "thresholds_of u = thresholds_of u' \<Longrightarrow> sub_step sid sp u = sub_step sid sp u'"
  by (auto simp: sub_step_def fun_eq_iff split: option.splits)

lemma user_fanout_thresholds:
  "thresholds_of u = thresholds_of u' \<Longrightarrow> subscriptions u = subscriptions u' \<Longrightarrow>
   user_fanout sid sp (Some u) = user_fanout sid sp (Some u')"
  by (auto simp: user_fanout_def sub_step_thresholds [of u u'] split: option.splits)

text \<open>
  C6. A tick returns whatever the documents of the registered identities hold. An
  identity whose subscriptions are empty, missing or null gets no message at all: its
  block is empty for any socket, and the tick emits what it would emit with the identity
  taken out of the registry. Missing or null alerts or thresholds are read as the empty
  list of thresholds: the block is the one of the same document with an empty list.
\<close>

theorem missing_fields_silent:
  assumes "floor_ok (stockPrices s)"
  shows "\<exists>s' out.
           tick rnd s = Some (s', out) \<and>
           (no_subscriptions (inMemoryUsers s e) \<longrightarrow>
              (\<forall>sid. user_fanout sid (stockPrices s') (inMemoryUsers s e) = []) \<and>
              out = fanout (stockPrices s') (inMemoryUsers s) (filter (\<lambda>kv. fst kv \<noteq> e) (userSockets s))) \<and>
           (\<forall>u. inMemoryUsers s e = Some u \<and>
                 (alerts u = None \<or> (\<exists>a. alerts u = Some a \<and> thresholds a = None)) \<longrightarrow>
              thresholds_of u = [] \<and>
              (\<forall>sid. user_fanout sid (stockPrices s') (Some u) =
                     user_fanout sid (stockPrices s') (Some (u\<lparr>alerts := Some \<lparr>thresholds = Some []\<rparr>\<rparr>))))"
proof -
  from tick_total [OF assms, of rnd] obtain sp' where
    t: "tick rnd s = Some (s\<lparr>stockPrices := sp'\<rparr>, fanout sp' (inMemoryUsers s) (userSockets s))"
    by blast
  have a: "no_subscriptions (inMemoryUsers s e) \<longrightarrow>
              (\<forall>sid. user_fanout sid sp' (inMemoryUsers s e) = []) \<and>
              fanout sp' (inMemoryUsers s) (userSockets s) =
                fanout sp' (inMemoryUsers s) (filter (\<lambda>kv. fst kv \<noteq> e) (userSockets s))"
    using fanout_drop_silent [of "inMemoryUsers s" e sp' "userSockets s"]
    by (simp add: user_fanout_empty)
  have b: "\<forall>u. inMemoryUsers s e = Some u \<and>
                 (alerts u = None \<or> (\<exists>a. alerts u = Some a \<and> thresholds a = None)) \<longrightarrow>
              thresholds_of u = [] \<and>
              (\<forall>sid. user_fanout sid sp' (Some u) =
                     user_fanout sid sp' (Some (u\<lparr>alerts := Some \<lparr>thresholds = Some []\<rparr>\<rparr>)))"
  proof (intro allI impI)
    fix u
    assume h: "inMemoryUsers s e = Some u \<and>
                 (alerts u = None \<or> (\<exists>a. alerts u = Some a \<and> thresholds a = None))"
    then have e: "thresholds_of u = []" by (simp add: thresholds_of_missing)
    have "thresholds_of (u\<lparr>alerts := Some \<lparr>thresholds = Some []\<rparr>\<rparr>) = []"
      by (simp add: thresholds_of_def)
    with e show "thresholds_of u = [] \<and>
              (\<forall>sid. user_fanout sid sp' (Some u) =
                     user_fanout sid sp' (Some (u\<lparr>alerts := Some \<lparr>thresholds = Some []\<rparr>\<rparr>)))"
      by (simp add: user_fanout_thresholds)
  qed
  show ?thesis
    using t a b
    by (intro exI [of _ "s\<lparr>stockPrices := sp'\<rparr>"] exI [of _ "fanout sp' (inMemoryUsers s) (userSockets s)"])
       simp
qed

theorem missing_fields_silent_witness:
  "\<exists>s' out. tick flat_draws bare_server = Some (s', out) \<and> out = [] \<and> thresholds_of bare_user = []"
proof -
  have f: "floor_ok (stockPrices bare_server)"
    by (simp add: bare_server_def example_floor_ok)
  from missing_fields_silent [OF f, of flat_draws "''b@x.io''"]
  obtain s' out where
    h: "tick flat_draws bare_server = Some (s', out)"
       "no_subscriptions (inMemoryUsers bare_server ''b@x.io'') \<longrightarrow>
          (\<forall>sid. user_fanout sid (stockPrices s') (inMemoryUsers bare_server ''b@x.io'') = []) \<and>
          out = fanout (stockPrices s') (inMemoryUsers bare_server)
                  (filter (\<lambda>kv. fst kv \<noteq> ''b@x.io'') (userSockets bare_server))"
       "\<forall>u. inMemoryUsers bare_server ''b@x.io'' = Some u \<and>
                 (alerts u = None \<or> (\<exists>a. alerts u = Some a \<and> thresholds a = None)) \<longrightarrow>
              thresholds_of u = [] \<and>
              (\<forall>sid. user_fanout sid (stockPrices s') (Some u) =
                     user_fanout sid (stockPrices s') (Some (u\<lparr>alerts := Some \<lparr>thresholds = Some []\<rparr>\<rparr>)))"
    by blast
  have n: "no_subscriptions (inMemoryUsers bare_server ''b@x.io'')"
    by (simp add: bare_server_def bare_user_def no_subscriptions_def)
  have u: "inMemoryUsers bare_server ''b@x.io'' = Some bare_user \<and>
           (alerts bare_user = None \<or> (\<exists>a. alerts bare_user = Some a \<and> thresholds a = None))"
    by (simp add: bare_server_def bare_user_def)
  from h(2) n have "out = []" by (simp add: bare_server_def fanout_def)
  moreover from h(3) u have "thresholds_of bare_user = []" by blast
  ultimately show ?thesis using h(1) by blast
qed

section \<open>Registration\<close>

lemma keys_subscribedStocks: "fst ` set (subscribedStocks sp subs) = set subs \<inter> dom sp"
proof -
  have "fst ` set (subscribedStocks sp subs) = dom (map_of (subscribedStocks sp subs))"
    by (simp add: dom_map_of_conv_image_fst)
  also have "\<dots> = set subs \<inter> dom sp"
    by (auto simp: dom_def map_of_subscribedStocks)
  finally show ?thesis .
qed

text \<open>
  C8. The register event of an identity with non-empty subscriptions answers at once, with
  no tick in between, with exactly one message on the registering socket: a stockUpdate
  whose keys are the subscribed tickers that have a quote, each once, with their current
  quotes. No alert is among the messages; the quotes are left as they are and the registry
  maps the identity to the socket.
\<close>

theorem register_sends_snapshot:
  assumes "inMemoryUsers s e = Some u" and "subscriptions u = Some subs" and "subs \<noteq> []"
  shows "\<exists>obj. snd (register e sid s) = [(sid, StockUpdate obj)] \<and>
           obj = subscribedStocks (stockPrices s) subs \<and>
           distinct (map fst obj) \<and>
           fst ` set obj = set subs \<inter> dom (stockPrices s) \<and>
           (\<forall>t. map_of obj t = (if t \<in> set subs then stockPrices s t else None)) \<and>
           stockPrices (fst (register e sid s)) = stockPrices s \<and>
           map_of (userSockets (fst (register e sid s))) e = Some sid"
  using assms
  by (simp add: register_def distinct_subscribedStocks keys_subscribedStocks
      map_of_subscribedStocks map_of_js_set)

theorem register_sends_snapshot_witness:
  "\<exists>obj. snd (register ''a@x.io'' ''s9'' alerting_server) = [(''s9'', StockUpdate obj)] \<and>
           obj = [(''GOOG'', \<lparr>price = 10000, change = 0, changePercent = 0\<rparr>)] \<and>
           map_of (userSockets (fst (register ''a@x.io'' ''s9'' alerting_server))) ''a@x.io'' = Some ''s9''"
  using register_sends_snapshot [of alerting_server "''a@x.io''" alerting_user "[''GOOG'']" "''s9''"]
  by (simp add: alerting_server_def alerting_user_def subscribedStocks_def example_prices)

section \<open>Subscribing and unsubscribing\<close>

lemma store_unchanged:
  "inMemoryUsers s e = Some u \<Longrightarrow> subscriptions u = Some subs \<Longrightarrow>
   s\<lparr>inMemoryUsers := (inMemoryUsers s)(e \<mapsto> u\<lparr>subscriptions := Some subs\<rparr>)\<rparr> = s"
proof -
  assume a: "inMemoryUsers s e = Some u" and b: "subscriptions u = Some subs"
  from b have "u\<lparr>subscriptions := Some subs\<rparr> = u" by simp
  with a have "(inMemoryUsers s)(e \<mapsto> u\<lparr>subscriptions := Some subs\<rparr>) = inMemoryUsers s"
    by (simp add: map_upd_triv)
  then show ?thesis by simp
qed

text \<open>
  C9. For a logged-in user with a subscriptions list: subscribing to a supported ticker
  that is already in the list answers success with the list and leaves the server as it
  is; unsubscribing from a ticker that is not in the list does the same. Both calls keep
  a list without duplicates free of duplicates.
\<close>

theorem subscribe_idempotent:
  assumes "e \<noteq> []" and "inMemoryUsers s e = Some u" and "subscriptions u = Some subs"
  shows "(t1 \<in> set SUPPORTED_STOCKS \<and> t1 \<in> set subs \<longrightarrow>
            subscribe (Some e) t1 s = (Success subs, s)) \<and>
         (t2 \<notin> set subs \<longrightarrow> unsubscribe (Some e) t2 s = (Success subs, s)) \<and>
         (distinct subs \<and> t1 \<in> set SUPPORTED_STOCKS \<longrightarrow>
            (\<exists>subs' u'. subscribe (Some e) t1 s =
                 (Success subs', s\<lparr>inMemoryUsers := (inMemoryUsers s)(e \<mapsto> u')\<rparr>) \<and>
               subscriptions u' = Some subs' \<and> distinct subs' \<and> set subs' = insert t1 (set subs))) \<and>
         (distinct subs \<longrightarrow>
            (\<exists>subs' u'. unsubscribe (Some e) t2 s =
                 (Success subs', s\<lparr>inMemoryUsers := (inMemoryUsers s)(e \<mapsto> u')\<rparr>) \<and>
               subscriptions u' = Some subs' \<and> distinct subs' \<and> set subs' = set subs - {t2}))"
proof (intro conjI impI)
  assume "t1 \<in> set SUPPORTED_STOCKS \<and> t1 \<in> set subs"
  then show "subscribe (Some e) t1 s = (Success subs, s)"
    using assms by (simp add: subscribe_def store_unchanged)
next
  assume "t2 \<notin> set subs"
  then have "filter (\<lambda>sub. sub \<noteq> t2) subs = subs" by (auto simp: filter_id_conv)
  then show "unsubscribe (Some e) t2 s = (Success subs, s)"
    using assms by (simp add: unsubscribe_def store_unchanged)
next
  assume "distinct subs \<and> t1 \<in> set SUPPORTED_STOCKS"
  then show "\<exists>subs' u'. subscribe (Some e) t1 s =
                 (Success subs', s\<lparr>inMemoryUsers := (inMemoryUsers s)(e \<mapsto> u')\<rparr>) \<and>
               subscriptions u' = Some subs' \<and> distinct subs' \<and> set subs' = insert t1 (set subs)"
    using assms by (auto simp: subscribe_def Let_def)
next
  assume "distinct subs"
  then show "\<exists>subs' u'. unsubscribe (Some e) t2 s =
                 (Success subs', s\<lparr>inMemoryUsers := (inMemoryUsers s)(e \<mapsto> u')\<rparr>) \<and>
               subscriptions u' = Some subs' \<and> distinct subs' \<and> set subs' = set subs - {t2}"
    using assms by (auto simp: unsubscribe_def Let_def)
qed

theorem subscribe_idempotent_witness:
  "subscribe (Some ''a@x.io'') ''GOOG'' example_server = (Success [''GOOG''], example_server) \<and>
   unsubscribe (Some ''a@x.io'') ''TSLA'' example_server = (Success [''GOOG''], example_server)"
  using subscribe_idempotent [of "''a@x.io''" example_server example_user "[''GOOG'']" "''GOOG''" "''TSLA''"]
  by (simp add: example_server_def example_user_def SUPPORTED_STOCKS_def)

section \<open>Disconnecting\<close>

lemma find_split:
  "find P xs = Some x \<Longrightarrow> \<exists>ys zs. xs = ys @ x # zs \<and> P x \<and> (\<forall>y \<in> set ys. \<not> P y)"
proof (induction xs)
  case Nil
  then show ?case by simp
next
  case (Cons a xs)
  show ?case
  proof (cases "P a")
    case True
    with Cons.prems have "a = x" by simp
    with True show ?thesis by (intro exI [of _ "[]"] exI [of _ xs]) simp
  next
    case False
    with Cons.prems have "find P xs = Some x" by simp
    from Cons.IH [OF this] obtain ys zs where "xs = ys @ x # zs" "P x" "\<forall>y \<in> set ys. \<not> P y"
      by blast
    with False show ?thesis by (intro exI [of _ "a # ys"] exI [of _ zs]) simp
  qed
qed

lemma filter_key_distinct:
  "distinct (map fst (ys @ kv # zs)) \<Longrightarrow> filter (\<lambda>kv'. fst kv' \<noteq> fst kv) (ys @ kv # zs) = ys @ zs"
proof -
  assume d: "distinct (map fst (ys @ kv # zs))"
  then have k: "fst kv \<notin> fst ` set ys" "fst kv \<notin> fst ` set zs"
    by auto
  have "\<forall>y \<in> set ys. fst y \<noteq> fst kv"
    using k(1) by (metis imageI)
  moreover have "\<forall>z \<in> set zs. fst z \<noteq> fst kv"
    using k(2) by (metis imageI)
  ultimately show ?thesis by (simp add: filter_id_conv)
qed

lemma shared_sockets: "userSockets shared_server = [(''a@x.io'', ''s1''), (''b@x.io'', ''s1'')]"
  by (simp add: shared_server_def register_def two_user_server_def)

text \<open>
  C10. On a registry with one entry per identity, a disconnect event removes at most one
  entry: none when no entry has the socket's id, and otherwise the first entry that has
  it, the entries before and after it staying in place. Every other entry stays in the
  registry, also an entry of another identity with the same socket id. The quotes and
  the user documents are left as they are.
\<close>

theorem disconnect_removes_first:
  assumes "distinct (map fst (userSockets s))"
  shows "(find (\<lambda>kv. snd kv = sid) (userSockets s) = None \<longrightarrow> disconnect sid s = s) \<and>
         (\<forall>kv. find (\<lambda>kv. snd kv = sid) (userSockets s) = Some kv \<longrightarrow>
            (\<exists>xs ys. userSockets s = xs @ kv # ys \<and> snd kv = sid \<and> sid \<notin> snd ` set xs \<and>
               userSockets (disconnect sid s) = xs @ ys)) \<and>
         (\<forall>kv \<in> set (userSockets s).
            find (\<lambda>kv. snd kv = sid) (userSockets s) \<noteq> Some kv \<longrightarrow> kv \<in> set (userSockets (disconnect sid s))) \<and>
         length (userSockets s) \<le> length (userSockets (disconnect sid s)) + 1 \<and>
         distinct (map fst (userSockets (disconnect sid s))) \<and>
         stockPrices (disconnect sid s) = stockPrices s \<and>
         inMemoryUsers (disconnect sid s) = inMemoryUsers s"
proof (cases "find (\<lambda>kv. snd kv = sid) (userSockets s)")
  case None
  then show ?thesis using assms by (simp add: disconnect_def)
next
  case (Some kv)
  from find_split [OF Some] obtain xs ys where
    sp: "userSockets s = xs @ kv # ys" "snd kv = sid" "\<forall>y \<in> set xs. snd y \<noteq> sid"
    by blast
  have "filter (\<lambda>kv'. fst kv' \<noteq> fst kv) (xs @ kv # ys) = xs @ ys"
    using assms unfolding sp(1) by (rule filter_key_distinct)
  then have r: "userSockets (disconnect sid s) = xs @ ys"
    using Some sp(1) by (simp add: disconnect_def)
  have a: "\<exists>xs ys. userSockets s = xs @ kv # ys \<and> snd kv = sid \<and> sid \<notin> snd ` set xs \<and>
               userSockets (disconnect sid s) = xs @ ys"
    using sp r by (intro exI [of _ xs] exI [of _ ys]) auto
  have b: "\<forall>kv' \<in> set (userSockets s). Some kv \<noteq> Some kv' \<longrightarrow> kv' \<in> set (userSockets (disconnect sid s))"
    using sp(1) r by auto
  have d: "distinct (map fst (userSockets (disconnect sid s)))"
    using assms sp(1) r by auto
  have e: "stockPrices (disconnect sid s) = stockPrices s \<and> inMemoryUsers (disconnect sid s) = inMemoryUsers s"
    using Some by (simp add: disconnect_def)
  show ?thesis using Some a b d e r sp(1) by simp
qed

theorem disconnect_removes_first_witness:
  "(''b@x.io'', ''s1'') \<in> set (userSockets (disconnect ''s1'' shared_server)) \<and>
   length (userSockets shared_server) \<le> length (userSockets (disconnect ''s1'' shared_server)) + 1"
  using disconnect_removes_first [of shared_server "''s1''"]
  by (simp add: shared_sockets)

section \<open>Unregistering and registering again\<close>

lemma values_js_set: "snd ` set (js_set kvs k v) \<subseteq> insert v (snd ` set kvs)"
  by (induction kvs) auto

lemma fanout_addr: "m \<in> set (fanout sp us socks) \<Longrightarrow> fst m \<in> snd ` set socks"
  by (auto simp: set_fanout dest: user_fanout_addr)

lemma subscribe_frame:
  "stockPrices (snd (subscribe sess t s)) = stockPrices s"
  "userSockets (snd (subscribe sess t s)) = userSockets s"
  by (auto simp: subscribe_def Let_def split: option.splits)

lemma unsubscribe_frame:
  "stockPrices (snd (unsubscribe sess t s)) = stockPrices s"
  "userSockets (snd (unsubscribe sess t s)) = userSockets s"
  by (auto simp: unsubscribe_def Let_def split: option.splits)

lemma disconnect_frame:
  "stockPrices (disconnect sid s) = stockPrices s"
  "set (userSockets (disconnect sid s)) \<subseteq> set (userSockets s)"
  by (auto simp: disconnect_def split: option.splits)

lemma register_frame:
  "stockPrices (fst (register e sid s)) = stockPrices s"
  "userSockets (fst (register e sid s)) = js_set (userSockets s) e sid"
  "m \<in> set (snd (register e sid s)) \<Longrightarrow> fst m = sid"
  by (auto simp: register_def split: option.splits if_splits)

lemma step_quiet:
  assumes "quiet sid s" and "\<not> registers sid i"
  shows "\<exists>s' out. step i s = Some (s', out) \<and> quiet sid s' \<and> (\<forall>m \<in> set out. fst m \<noteq> sid)"
proof (cases i)
  case (Tick rnd)
  from assms(1) have f: "floor_ok (stockPrices s)" by (simp add: quiet_def)
  from tick_total [OF f, of rnd] obtain sp' where
    t: "tick rnd s = Some (s\<lparr>stockPrices := sp'\<rparr>, fanout sp' (inMemoryUsers s) (userSockets s))"
    and f': "floor_ok sp'"
    by blast
  have "\<forall>m \<in> set (fanout sp' (inMemoryUsers s) (userSockets s)). fst m \<noteq> sid"
    using assms(1) fanout_addr by (fastforce simp: quiet_def)
  with t f' assms(1) Tick show ?thesis by (simp add: quiet_def)
next
  case (Register e sid')
  with assms(2) have ne: "sid' \<noteq> sid" by simp
  have "sid \<notin> snd ` set (js_set (userSockets s) e sid')"
    using values_js_set [of "userSockets s" e sid'] assms(1) ne by (auto simp: quiet_def)
  moreover have "\<forall>m \<in> set (snd (register e sid' s)). fst m \<noteq> sid"
    using ne register_frame(3) by blast
  ultimately have "quiet sid (fst (register e sid' s)) \<and> (\<forall>m \<in> set (snd (register e sid' s)). fst m \<noteq> sid)"
    using assms(1) by (simp add: quiet_def register_frame(1,2))
  then show ?thesis
    using Register
    by (intro exI [of _ "fst (register e sid' s)"] exI [of _ "snd (register e sid' s)"]) simp
next
  case (Disconnect sid')
  have "sid \<notin> snd ` set (userSockets (disconnect sid' s))"
    using disconnect_frame(2) [of sid' s] assms(1) by (auto simp: quiet_def)
  with assms(1) Disconnect show ?thesis by (simp add: quiet_def disconnect_frame(1))
next
  case (Subscribe sess t)
  with assms(1) show ?thesis by (simp add: quiet_def subscribe_frame)
next
  case (Unsubscribe sess t)
  with assms(1) show ?thesis by (simp add: quiet_def unsubscribe_frame)
qed

lemma run_quiet:
  "quiet sid s \<Longrightarrow> \<forall>i \<in> set ins. \<not> registers sid i \<Longrightarrow>
   \<exists>s' out. run ins s = Some (s', out) \<and> quiet sid s' \<and> (\<forall>m \<in> set out. fst m \<noteq> sid)"
proof (induction ins arbitrary: s)
  case Nil
  then show ?case by simp
next
  case (Cons i ins)
  from Cons.prems have "\<not> registers sid i" by simp
  from step_quiet [OF Cons.prems(1) this] obtain s1 out1 where
    s1: "step i s = Some (s1, out1)" "quiet sid s1" "\<forall>m \<in> set out1. fst m \<noteq> sid"
    by blast
  from Cons.prems have "\<forall>i \<in> set ins. \<not> registers sid i" by simp
  from Cons.IH [OF s1(2) this] obtain s2 out2 where
    s2: "run ins s1 = Some (s2, out2)" "quiet sid s2" "\<forall>m \<in> set out2. fst m \<noteq> sid"
    by blast
  from s1 s2 show ?case by auto
qed

lemma disconnect_quiet:
  assumes "length (filter (\<lambda>kv. snd kv = sid) (userSockets s)) \<le> 1"
  shows "sid \<notin> snd ` set (userSockets (disconnect sid s))"
proof (cases "find (\<lambda>kv. snd kv = sid) (userSockets s)")
  case None
  then have "disconnect sid s = s" by (simp add: disconnect_def)
  with None show ?thesis by (auto simp: find_None_iff)
next
  case (Some kv)
  from find_split [OF Some] obtain xs ys where
    sp: "userSockets s = xs @ kv # ys" "snd kv = sid" "\<forall>y \<in> set xs. snd y \<noteq> sid"
    by blast
  from assms sp have "filter (\<lambda>kv. snd kv = sid) ys = []" by simp
  then have "\<forall>y \<in> set ys. snd y \<noteq> sid" by (simp add: filter_empty_conv)
  with sp have "\<forall>y \<in> set (userSockets s). snd y = sid \<longrightarrow> y = kv" by auto
  then show ?thesis using Some by (auto simp: disconnect_def)
qed

lemma js_set_split:
  "distinct (map fst kvs) \<Longrightarrow>
   \<exists>xs ys. js_set kvs k v = xs @ (k, v) # ys \<and> k \<notin> fst ` set xs \<and> k \<notin> fst ` set ys"
proof (induction kvs)
  case Nil
  show ?case by (intro exI [of _ "[]"]) simp
next
  case (Cons kv kvs)
  show ?case
  proof (cases "fst kv = k")
    case True
    with Cons.prems show ?thesis by (intro exI [of _ "[]"] exI [of _ kvs]) auto
  next
    case False
    from Cons obtain xs ys where "js_set kvs k v = xs @ (k, v) # ys" "k \<notin> fst ` set xs" "k \<notin> fst ` set ys"
      by auto
    with False show ?thesis by (intro exI [of _ "kv # xs"] exI [of _ ys]) auto
  qed
qed

text \<open>
  C7, as the code has it. On a registry with one entry per identity: when the socket is
  registered under at most one identity, then after its disconnect event any run of events
  in which the socket does not register again (ticks, events of other sockets, calls of the
  endpoints) returns and sends no message to the socket, and no registry entry points to it.
  After an identity registers on a socket the registry still has one entry per identity,
  it maps the identity to the new socket, and the next tick returns and sends the
  identity's block to the new socket, every other block belonging to another identity.
\<close>

theorem unregister_then_register:
  assumes "floor_ok (stockPrices s)" and "distinct (map fst (userSockets s))"
    and "length (filter (\<lambda>kv. snd kv = sid) (userSockets s)) \<le> 1"
    and "\<forall>i \<in> set ins. \<not> registers sid i"
  shows "(\<exists>s' out. run ins (disconnect sid s) = Some (s', out) \<and> \<not> delivers_to sid out \<and>
             sid \<notin> snd ` set (userSockets s')) \<and>
         distinct (map fst (userSockets (fst (register e sid' s)))) \<and>
         map_of (userSockets (fst (register e sid' s))) e = Some sid' \<and>
         (\<exists>s' out xs ys.
             tick rnd (fst (register e sid' s)) = Some (s', out) \<and>
             userSockets (fst (register e sid' s)) = xs @ (e, sid') # ys \<and>
             e \<notin> fst ` set xs \<and> e \<notin> fst ` set ys \<and>
             out = fanout (stockPrices s') (inMemoryUsers s) xs @
                   user_fanout sid' (stockPrices s') (inMemoryUsers s e) @
                   fanout (stockPrices s') (inMemoryUsers s) ys)"
proof -
  have q: "quiet sid (disconnect sid s)"
    using assms(1) disconnect_quiet [OF assms(3)] by (simp add: quiet_def disconnect_frame(1))
  from run_quiet [OF q assms(4)] obtain s1 out1 where
    r: "run ins (disconnect sid s) = Some (s1, out1)" "quiet sid s1" "\<forall>m \<in> set out1. fst m \<noteq> sid"
    by blast
  have a: "\<exists>s' out. run ins (disconnect sid s) = Some (s', out) \<and> \<not> delivers_to sid out \<and>
             sid \<notin> snd ` set (userSockets s')"
    using r by (intro exI [of _ s1] exI [of _ out1]) (simp add: delivers_to_def list_ex_iff quiet_def)
  let ?s = "fst (register e sid' s)"
  have us: "inMemoryUsers ?s = inMemoryUsers s" by (simp add: register_def)
  have b: "distinct (map fst (userSockets ?s))"
    using assms(2) by (simp add: register_frame(2) distinct_js_set)
  have c: "map_of (userSockets ?s) e = Some sid'"
    by (simp add: register_frame(2) map_of_js_set)
  from js_set_split [OF assms(2), of e sid'] obtain xs ys where
    sp: "userSockets ?s = xs @ (e, sid') # ys" "e \<notin> fst ` set xs" "e \<notin> fst ` set ys"
    by (auto simp: register_frame(2))
  have f: "floor_ok (stockPrices ?s)" using assms(1) by (simp add: register_frame(1))
  from tick_total [OF f, of rnd] obtain sp' where
    t: "tick rnd ?s = Some (?s\<lparr>stockPrices := sp'\<rparr>, fanout sp' (inMemoryUsers ?s) (userSockets ?s))"
    by blast
  have d: "\<exists>s' out xs ys.
             tick rnd ?s = Some (s', out) \<and>
             userSockets ?s = xs @ (e, sid') # ys \<and>
             e \<notin> fst ` set xs \<and> e \<notin> fst ` set ys \<and>
             out = fanout (stockPrices s') (inMemoryUsers s) xs @
                   user_fanout sid' (stockPrices s') (inMemoryUsers s e) @
                   fanout (stockPrices s') (inMemoryUsers s) ys"
    using t sp
    by (intro exI [of _ "?s\<lparr>stockPrices := sp'\<rparr>"] exI [of _ "fanout sp' (inMemoryUsers ?s) (userSockets ?s)"]
          exI [of _ xs] exI [of _ ys])
       (simp add: us fanout_split)
  from a b c d show ?thesis by blast
qed

theorem unregister_then_register_witness:
  "\<not> delivers_to ''s1''
       (run_out [Tick flat_draws, Register ''a@x.io'' ''s2'', Tick flat_draws]
          (disconnect ''s1'' example_server)) \<and>
   map_of (userSockets (fst (register ''a@x.io'' ''s2'' example_server))) ''a@x.io'' = Some ''s2''"
proof -
  have f: "floor_ok (stockPrices example_server)" by (rule example_server_floor_ok)
  have d: "distinct (map fst (userSockets example_server))" by (simp add: example_server_def)
  have l: "length (filter (\<lambda>kv. snd kv = ''s1'') (userSockets example_server)) \<le> 1"
    by (simp add: example_server_def)
  have i: "\<forall>i \<in> set [Tick flat_draws, Register ''a@x.io'' ''s2'', Tick flat_draws]. \<not> registers ''s1'' i"
    by simp
  from unregister_then_register [OF f d l i, of "''a@x.io''" "''s2''" flat_draws]
  show ?thesis by (auto simp: run_out_def)
qed

text \<open>
  C7, as the specification words it (after the disconnect of a socket no tick delivers to
  it), fails when the socket is registered under two identities: the disconnect removes
  the first entry only, and the next tick sends the second identity's stockUpdate to the
  disconnected socket.
\<close>

theorem unregister_counterexample:
  "userSockets shared_server = [(''a@x.io'', ''s1''), (''b@x.io'', ''s1'')]
   \<and> userSockets (disconnect ''s1'' shared_server) = [(''b@x.io'', ''s1'')]
   \<and> ticks_out [flat_draws] (disconnect ''s1'' shared_server) =
       [(''s1'', StockUpdate [(''GOOG'', \<lparr>price = 10000, change = 0, changePercent = 0\<rparr>)])]
   \<and> delivers_to ''s1'' (ticks_out [flat_draws] (disconnect ''s1'' shared_server))"
proof -
  have a: "userSockets (disconnect ''s1'' shared_server) = [(''b@x.io'', ''s1'')]"
    by (simp add: disconnect_def shared_sockets)
  have b: "ticks_out [flat_draws] (disconnect ''s1'' shared_server) =
       [(''s1'', StockUpdate [(''GOOG'', \<lparr>price = 10000, change = 0, changePercent = 0\<rparr>)])]"
    by (simp add: disconnect_def shared_sockets shared_server_def register_def two_user_server_def
          second_user_def example_prices tick_eval)
  show ?thesis using a b by (simp add: shared_sockets delivers_to_def)
qed

end
